theory Spec2Isabelle
  imports Complex_Main "HOL-Library.Char_ord" "HOL-Library.List_Lexorder"
    "HOL-Library.Product_Lexorder"
begin

section \<open>SkyVision: query analysis, query planning and result assembly\<close>

text \<open>
  The development embeds \<^verbatim>\<open>backend/app/queries.py\<close> and the parts of
  \<^verbatim>\<open>backend/app/routers/search.py\<close> and \<^verbatim>\<open>backend/app/models/request.py\<close>
  that decide how a search request becomes an SQL statement with bound parameters.

  Python strings are modelled as \<^typ>\<open>string\<close>. The string methods below are the
  ASCII behaviour of \<^verbatim>\<open>str.lower\<close>, \<^verbatim>\<open>str.upper\<close> and \<^verbatim>\<open>str.strip\<close>: a character
  outside \<^verbatim>\<open>A-Z\<close> / \<^verbatim>\<open>a-z\<close> is left unchanged by the case conversions.
\<close>

subsection \<open>Python string primitives\<close>

definition ascii_uppercase :: string where
  "ascii_uppercase = ''ABCDEFGHIJKLMNOPQRSTUVWXYZ''"

definition ascii_lowercase :: string where
  "ascii_lowercase = ''abcdefghijklmnopqrstuvwxyz''"

definition lower_char :: "char \<Rightarrow> char" where
  "lower_char c = (case map_of (zip ascii_uppercase ascii_lowercase) c of
                     Some d \<Rightarrow> d | None \<Rightarrow> c)"

definition upper_char :: "char \<Rightarrow> char" where
  "upper_char c = (case map_of (zip ascii_lowercase ascii_uppercase) c of
                     Some d \<Rightarrow> d | None \<Rightarrow> c)"

text \<open>\<^verbatim>\<open>s.lower()\<close> and \<^verbatim>\<open>s.upper()\<close>.\<close>

definition str_lower :: "string \<Rightarrow> string" where
  "str_lower s = map lower_char s"

definition str_upper :: "string \<Rightarrow> string" where
  "str_upper s = map upper_char s"

text \<open>The ASCII characters for which \<^verbatim>\<open>str.isspace\<close> holds; \<^verbatim>\<open>s.strip()\<close> removes
  them at both ends.\<close>

definition is_space :: "char \<Rightarrow> bool" where
  "is_space c \<longleftrightarrow> c \<in> set [CHR 0x09, CHR 0x0A, CHR 0x0B, CHR 0x0C, CHR 0x0D,
                              CHR 0x1C, CHR 0x1D, CHR 0x1E, CHR 0x1F, CHR 0x20]"

definition str_strip :: "string \<Rightarrow> string" where
  "str_strip s = rev (dropWhile is_space (rev (dropWhile is_space s)))"

text \<open>\<^verbatim>\<open>s.startswith(p)\<close> and the substring test \<^verbatim>\<open>sub in s\<close>.\<close>

fun startswith :: "'a list \<Rightarrow> 'a list \<Rightarrow> bool" where
  "startswith s [] = True"
| "startswith [] (p # ps) = False"
| "startswith (c # cs) (p # ps) = (c = p \<and> startswith cs ps)"

fun str_in :: "'a list \<Rightarrow> 'a list \<Rightarrow> bool" where
  "str_in sub [] = (sub = [])"
| "str_in sub (c # cs) = (startswith (c # cs) sub \<or> str_in sub cs)"

text \<open>\<^verbatim>\<open>sep.join(parts)\<close>.\<close>

fun str_join :: "string \<Rightarrow> string list \<Rightarrow> string" where
  "str_join sep [] = []"
| "str_join sep [p] = p"
| "str_join sep (p # q # ps) = p @ sep @ str_join sep (q # ps)"

text \<open>\<^verbatim>\<open>re.findall(r"[a-zA-Z]+", s)\<close>: the scan keeps the run it is inside in
  \<open>cur\<close> and emits it at the first character that is not an ASCII letter, or at the
  end of the text.\<close>

definition is_ascii_letter :: "char \<Rightarrow> bool" where
  "is_ascii_letter c \<longleftrightarrow> c \<in> set ascii_lowercase \<or> c \<in> set ascii_uppercase"

fun letter_runs :: "string \<Rightarrow> string \<Rightarrow> string list" where
  "letter_runs cur [] = (if cur = [] then [] else [cur])"
| "letter_runs cur (c # cs) =
     (if is_ascii_letter c then letter_runs (cur @ [c]) cs
      else (if cur = [] then [] else [cur]) @ letter_runs [] cs)"

definition findall_letters :: "string \<Rightarrow> string list" where
  "findall_letters s = letter_runs [] s"

text \<open>\<^verbatim>\<open>q or ""\<close> for an optional string.\<close>

definition or_empty :: "string option \<Rightarrow> string" where
  "or_empty q = (case q of None \<Rightarrow> [] | Some s \<Rightarrow> s)"

subsection \<open>Keyword and region detection\<close>

definition KEYWORD_WHITELIST :: "string set" where
  "KEYWORD_WHITELIST = {
     ''indoor'', ''garden'', ''gardens'', ''greenery'', ''trees'', ''plants'',
     ''glass'', ''modern'', ''classic'', ''vault'', ''arched'', ''arches'',
     ''wood'', ''bamboo'', ''fabric'', ''curved'', ''color'', ''bright'',
     ''lotus'', ''heritage'', ''spacious'', ''art'', ''biophilic'', ''beautiful'',
     ''facade'', ''facades''}"

definition REGION_KEYWORDS :: "(string \<times> string list) list" where
  "REGION_KEYWORDS = [
     (''asia'', [''india'', ''china'', ''japan'', ''singapore'', ''uae'', ''indonesia'',
                 ''korea'', ''thailand'', ''qatar'']),
     (''europe'', [''france'', ''uk'', ''germany'', ''italy'', ''switzerland'', ''spain'',
                   ''netherlands'', ''turkey'']),
     (''africa'', [''south africa'', ''egypt'', ''ethiopia'', ''morocco'']),
     (''america'', [''usa'', ''canada'', ''mexico'', ''brazil'']),
     (''oceania'', [''australia'', ''new zealand''])]"

text \<open>\<^verbatim>\<open>_extract_keywords\<close>: the set comprehension followed by \<^verbatim>\<open>sorted\<close>.\<close>

definition extract_keywords :: "string option \<Rightarrow> string list" where
  "extract_keywords q =
     (let toks = findall_letters (str_lower (or_empty q))
      in sort (remdups (filter (\<lambda>t. t \<in> KEYWORD_WHITELIST) toks)))"

text \<open>\<^verbatim>\<open>_detect_region\<close>: the loop over \<^verbatim>\<open>_REGION_KEYWORDS.items()\<close>, in
  insertion order, returning at the first hit.\<close>

definition region_hit :: "string \<Rightarrow> string \<times> string list \<Rightarrow> bool" where
  "region_hit q_lower rc =
     (str_in (fst rc) q_lower \<or> list_ex (\<lambda>c. str_in c q_lower) (snd rc))"

fun detect_region_loop :: "(string \<times> string list) list \<Rightarrow> string \<Rightarrow> string list option" where
  "detect_region_loop [] q_lower = None"
| "detect_region_loop (rc # rest) q_lower =
     (if region_hit q_lower rc then Some (snd rc) else detect_region_loop rest q_lower)"

definition detect_region :: "string option \<Rightarrow> string list option" where
  "detect_region q = detect_region_loop REGION_KEYWORDS (str_lower (or_empty q))"

subsection \<open>Python values\<close>

text \<open>A Python \<^verbatim>\<open>float\<close>. The finite values are idealised as reals (rounding is not
  modelled); the three non-finite values are kept apart, since \<^verbatim>\<open>math.isfinite\<close>
  tells them from the rest.\<close>

datatype pyfloat = Fin real | PosInf | NegInf | NaN

definition isfinite :: "pyfloat \<Rightarrow> bool" where
  "isfinite x = (case x of Fin r \<Rightarrow> True | PosInf \<Rightarrow> False | NegInf \<Rightarrow> False | NaN \<Rightarrow> False)"

text \<open>The values a filter map (\<^verbatim>\<open>Dict[str, Any]\<close>, parsed from JSON) can hold, and
  the values bound to the placeholders of a statement.\<close>

datatype jval =
    JNone
  | JBool bool
  | JInt int
  | JFloat pyfloat
  | JStr string
  | JList "jval list"
  | JDict "(string \<times> jval) list"

text \<open>Python truthiness, as tested by \<^verbatim>\<open>if filters.get(key):\<close>.\<close>

fun truthy :: "jval \<Rightarrow> bool" where
  "truthy JNone = False"
| "truthy (JBool b) = b"
| "truthy (JInt i) = (i \<noteq> 0)"
| "truthy (JFloat x) = (x \<noteq> Fin 0)"
| "truthy (JStr s) = (s \<noteq> [])"
| "truthy (JList xs) = (xs \<noteq> [])"
| "truthy (JDict kvs) = (kvs \<noteq> [])"

type_synonym filters = "(string \<times> jval) list"

text \<open>\<^verbatim>\<open>bool(d.get(key))\<close> for a dictionary given as an association list.\<close>

definition get_truthy :: "filters \<Rightarrow> string \<Rightarrow> bool" where
  "get_truthy f k = (case map_of f k of None \<Rightarrow> False | Some v \<Rightarrow> truthy v)"

subsection \<open>Settings\<close>

record settings =
  EMBEDDING_DIM :: int
  VECTOR_DISTANCE_FN :: string

definition default_settings :: settings where
  "default_settings = \<lparr> EMBEDDING_DIM = 512, VECTOR_DISTANCE_FN = ''VEC_DISTANCE_COSINE'' \<rparr>"

subsection \<open>The SQL text the planner writes\<close>

text \<open>
  The planner builds the statement by appending pieces of SQL text to a string, and the
  values for the placeholders \<^verbatim>\<open>?\<close> in a separate list. The statement is modelled as
  the list of the pieces appended, each piece a constructor; \<open>render_sql\<close> gives the text
  that the Python string holds. The placeholders stay positional, as in the code.
\<close>

datatype column = Country | City | ImageUrl | LogoUrl | MetaStyle | MetaTags

definition quote :: string where
  "quote = [CHR 0x27]"

fun colname :: "column \<Rightarrow> string" where
  "colname Country = ''country''"
| "colname City = ''city''"
| "colname ImageUrl = ''image_url''"
| "colname LogoUrl = ''logo_url''"
| "colname MetaStyle = ''JSON_VALUE(metadata, '' @ quote @ ''$.style'' @ quote @ '')''"
| "colname MetaTags = ''JSON_EXTRACT(metadata, '' @ quote @ ''$.tags'' @ quote @ '')''"

datatype cond =
    LowerEq column
  | LowerLike column
  | NotBlank column
  | AnyOf "cond list"
  | Paren cond
  | Zero

fun render_cond :: "cond \<Rightarrow> string" where
  "render_cond (LowerEq c) = ''LOWER('' @ colname c @ '') = LOWER(?)''"
| "render_cond (LowerLike c) = ''LOWER('' @ colname c @ '') LIKE LOWER(?)''"
| "render_cond (NotBlank c) =
     ''('' @ colname c @ '' IS NOT NULL AND '' @ colname c @ '' <> '' @ quote @ quote @ '')''"
| "render_cond (AnyOf cs) = str_join '' OR '' (map render_cond cs)"
| "render_cond (Paren c) = ''('' @ render_cond c @ '')''"
| "render_cond Zero = ''0''"

datatype table = Airports | Airlines

datatype distance_sel = DistZero | DistCall string

datatype order_key = ByName | ByDistance

datatype fragment =
    Select table distance_sel
  | WhereAll "cond list"
  | WhereGroup cond
  | AndGroup cond
  | Blank
  | OrderLimit nat column order_key nat

fun render_dist :: "distance_sel \<Rightarrow> string" where
  "render_dist DistZero = ''0.0''"
| "render_dist (DistCall fn) = fn @ ''(embedding, VEC_FromText(?))''"

fun keyname :: "order_key \<Rightarrow> string" where
  "keyname ByName = ''name''"
| "keyname ByDistance = ''distance''"

definition digit_char :: "nat \<Rightarrow> char" where
  "digit_char d = ''0123456789'' ! d"

fun decimal :: "nat \<Rightarrow> string" where
  "decimal n = (if n < 10 then [digit_char n] else decimal (n div 10) @ [digit_char (n mod 10)])"

definition newline :: string where
  "newline = [CHR 0x0A]"

definition spaces :: "nat \<Rightarrow> string" where
  "spaces n = replicate n (CHR 0x20)"

text \<open>The last piece is a triple-quoted block whose lines carry the indentation \<open>ind\<close> of
  the Python source (8 in \<^verbatim>\<open>search_airports_by_text\<close>, 4 in
  \<^verbatim>\<open>search_airlines_by_image\<close>).\<close>

fun render_fragment :: "fragment \<Rightarrow> string" where
  "render_fragment (Select Airports d) =
     ''SELECT id, name, city, country, image_url, metadata, '' @ render_dist d
       @ '' AS distance FROM airports''"
| "render_fragment (Select Airlines d) =
     ''SELECT id, name, iata, icao, logo_url, metadata, '' @ render_dist d
       @ '' AS distance FROM airlines''"
| "render_fragment (WhereAll clauses) = '' WHERE '' @ str_join '' AND '' (map render_cond clauses)"
| "render_fragment (WhereGroup c) = '' WHERE ('' @ render_cond c @ '')''"
| "render_fragment (AndGroup c) = '' AND ('' @ render_cond c @ '')''"
| "render_fragment Blank = '' ''"
| "render_fragment (OrderLimit ind col key n) =
     newline @ spaces (ind + 4) @ ''ORDER BY''
     @ newline @ spaces (ind + 6) @ ''('' @ colname col @ '' IS NULL OR '' @ colname col
         @ ''='' @ quote @ quote @ '') ASC,''
     @ newline @ spaces (ind + 6) @ keyname key @ '' ASC''
     @ newline @ spaces (ind + 4) @ ''LIMIT '' @ decimal n
     @ newline @ spaces ind"

definition render_sql :: "fragment list \<Rightarrow> string" where
  "render_sql sql = concat (map render_fragment sql)"

text \<open>\<^verbatim>\<open>"WHERE" in sql.upper()\<close>.\<close>

definition where_in_upper :: "fragment list \<Rightarrow> bool" where
  "where_in_upper sql = str_in ''WHERE'' (str_upper (render_sql sql))"

subsection \<open>Helpers of the planner\<close>

text \<open>\<^verbatim>\<open>_apply_filters\<close>. The Python appends to the caller's \<^verbatim>\<open>params\<close> list in
  place and returns the text; the model returns both.\<close>

definition add_value_filter ::
    "filters \<Rightarrow> string \<Rightarrow> cond \<Rightarrow> cond list \<times> jval list \<Rightarrow> cond list \<times> jval list" where
  "add_value_filter f k c cp =
     (case map_of f k of
        None \<Rightarrow> cp
      | Some v \<Rightarrow> if truthy v then (fst cp @ [c], snd cp @ [v]) else cp)"

definition add_flag_filter ::
    "filters \<Rightarrow> string \<Rightarrow> cond \<Rightarrow> cond list \<times> jval list \<Rightarrow> cond list \<times> jval list" where
  "add_flag_filter f k c cp =
     (case map_of f k of
        None \<Rightarrow> cp
      | Some v \<Rightarrow> if truthy v then (fst cp @ [c], snd cp) else cp)"

definition apply_filters ::
    "fragment list \<Rightarrow> filters option \<Rightarrow> jval list \<Rightarrow> fragment list \<times> jval list" where
  "apply_filters base_sql filters params =
     (case filters of
        None \<Rightarrow> (base_sql, params)
      | Some f \<Rightarrow>
          if f = [] then (base_sql, params)
          else
            let cp = ([], params);
                cp = add_value_filter f ''country'' (LowerEq Country) cp;
                cp = add_value_filter f ''city'' (LowerEq City) cp;
                cp = add_value_filter f ''style'' (LowerEq MetaStyle) cp;
                cp = add_flag_filter f ''has_image'' (NotBlank ImageUrl) cp;
                cp = add_flag_filter f ''has_logo'' (NotBlank LogoUrl) cp
            in (if fst cp \<noteq> [] then base_sql @ [WhereAll (fst cp)] else base_sql, snd cp))"

text \<open>\<^verbatim>\<open>_vec_text\<close>. \<open>fstr\<close> is \<^verbatim>\<open>str\<close> on floats, which the model takes as given.\<close>

definition cleaned :: "pyfloat list \<Rightarrow> pyfloat list" where
  "cleaned vec_list = map (\<lambda>x. if isfinite x then x else Fin 0) vec_list"

definition vec_text :: "(pyfloat \<Rightarrow> string) \<Rightarrow> pyfloat list \<Rightarrow> string" where
  "vec_text fstr vec_list = ''['' @ str_join '','' (map fstr (cleaned vec_list)) @ '']''"

text \<open>\<^verbatim>\<open>_distance_expr\<close>.\<close>

definition distance_expr :: "settings \<Rightarrow> distance_sel" where
  "distance_expr st =
     (let fn = str_strip (if VECTOR_DISTANCE_FN st \<noteq> [] then VECTOR_DISTANCE_FN st
                          else ''VEC_DISTANCE_COSINE'')
      in DistCall fn)"

text \<open>\<^verbatim>\<open>_keyword_hit_sql_and_params\<close>: the loop appends one parenthesised pair of
  \<^verbatim>\<open>LIKE\<close> tests and two copies of the pattern \<^verbatim>\<open>%kw%\<close> per keyword.\<close>

definition keyword_part :: cond where
  "keyword_part = Paren (AnyOf [LowerLike MetaStyle, LowerLike MetaTags])"

fun keyword_loop :: "string list \<Rightarrow> cond list \<Rightarrow> jval list \<Rightarrow> cond list \<times> jval list" where
  "keyword_loop [] parts params = (parts, params)"
| "keyword_loop (kw # kws) parts params =
     (let like = ''%'' @ kw @ ''%''
      in keyword_loop kws (parts @ [keyword_part]) (params @ [JStr like, JStr like]))"

definition keyword_hit_sql_and_params :: "string list \<Rightarrow> cond \<times> jval list" where
  "keyword_hit_sql_and_params keywords =
     (if keywords = [] then (Zero, [])
      else let (parts, params) = keyword_loop keywords [] []
           in (Paren (AnyOf parts), params))"

subsection \<open>The planner\<close>

text \<open>The analysis at the head of \<^verbatim>\<open>search_airports_by_text\<close>.\<close>

definition q_text_of :: "string option \<Rightarrow> string" where
  "q_text_of query_text = str_lower (str_strip (or_empty query_text))"

text \<open>\<^verbatim>\<open>bool(region_countries)\<close>: an absent value and an empty list are both false.\<close>

definition bool_region :: "string list option \<Rightarrow> bool" where
  "bool_region rc = (case rc of None \<Rightarrow> False | Some cs \<Rightarrow> cs \<noteq> [])"

definition is_region_search :: "string option \<Rightarrow> bool" where
  "is_region_search query_text =
     (let q_text = q_text_of query_text;
          keywords = extract_keywords (Some q_text);
          region_countries = detect_region (Some q_text)
      in bool_region region_countries \<and> \<not> (keywords \<noteq> []))"

text \<open>The statement and the parameter list that \<^verbatim>\<open>search_airports_by_text\<close> hands to
  \<^verbatim>\<open>cur.execute\<close>. The requested count \<open>k\<close> is an argument that the body never reads.\<close>

definition airports_statement ::
    "settings \<Rightarrow> (pyfloat \<Rightarrow> string) \<Rightarrow> pyfloat list \<Rightarrow> int \<Rightarrow> filters option \<Rightarrow> string option
       \<Rightarrow> fragment list \<times> jval list" where
  "airports_statement st fstr vec k filters query_text =
     (let q_text = q_text_of query_text;
          keywords = extract_keywords (Some q_text);
          region_countries = detect_region (Some q_text);
          (kw_expr, kw_params) = keyword_hit_sql_and_params keywords;
          region_search = (bool_region region_countries \<and> \<not> (keywords \<noteq> []));
          (sql, params) =
             (if region_search then ([Select Airports DistZero], [])
              else ([Select Airports (distance_expr st)], [JStr (vec_text fstr vec)]));
          (sql, params) = apply_filters sql filters params;
          (sql, params) =
             (if keywords \<noteq> [] then
                ((if where_in_upper sql then sql @ [AndGroup kw_expr, Blank]
                  else sql @ [WhereGroup kw_expr, Blank]),
                 params @ kw_params)
              else (sql, params));
          (sql, params) =
             (if bool_region region_countries then
                (let cs = the region_countries;
                     region_clause = AnyOf (map (\<lambda>_. LowerLike Country) cs)
                 in ((if where_in_upper sql then sql @ [AndGroup region_clause]
                      else sql @ [WhereGroup region_clause]),
                     params @ map JStr cs))
              else (sql, params));
          sql = (if region_search then sql @ [OrderLimit 8 ImageUrl ByName 1000]
                 else sql @ [OrderLimit 8 ImageUrl ByDistance 1000])
      in (sql, params))"

text \<open>The statement of \<^verbatim>\<open>search_airlines_by_image\<close>.\<close>

definition airlines_statement ::
    "settings \<Rightarrow> (pyfloat \<Rightarrow> string) \<Rightarrow> pyfloat list \<Rightarrow> int \<Rightarrow> filters option
       \<Rightarrow> fragment list \<times> jval list" where
  "airlines_statement st fstr vec k filters =
     (let params = [];
          sql = [Select Airlines (distance_expr st)];
          (sql, params) = apply_filters sql filters params;
          sql = sql @ [OrderLimit 4 LogoUrl ByDistance 1000];
          params = [JStr (vec_text fstr vec)] @ params
      in (sql, params))"

subsection \<open>The storage engine: what the statement means\<close>

text \<open>
  The statement is SQL, so its meaning is the meaning MariaDB gives it. A table row
  carries the value of every column expression a statement can mention, \<open>None\<close> for
  \<^verbatim>\<open>NULL\<close>; \<open>row_meta_style\<close> and \<open>row_meta_tags\<close> are the values of
  \<^verbatim>\<open>JSON_VALUE(metadata, '$.style')\<close> and \<^verbatim>\<open>JSON_EXTRACT(metadata, '$.tags')\<close>.
  Strings are compared as they are (binary collation), after the \<^verbatim>\<open>LOWER\<close> that the
  statement applies on both sides.
\<close>

record 'm row =
  row_id :: int
  row_name :: string
  row_city :: "string option"
  row_country :: "string option"
  row_iata :: "string option"
  row_icao :: "string option"
  row_image_url :: "string option"
  row_logo_url :: "string option"
  row_meta_style :: "string option"
  row_meta_tags :: "string option"
  row_metadata :: 'm

fun column_value :: "'m row \<Rightarrow> column \<Rightarrow> string option" where
  "column_value r Country = row_country r"
| "column_value r City = row_city r"
| "column_value r ImageUrl = row_image_url r"
| "column_value r LogoUrl = row_logo_url r"
| "column_value r MetaStyle = row_meta_style r"
| "column_value r MetaTags = row_meta_tags r"

text \<open>\<^verbatim>\<open>text LIKE pattern\<close>: \<^verbatim>\<open>%\<close> stands for any sequence of characters,
  \<^verbatim>\<open>_\<close> for any one character, every other character for itself, and the pattern has
  to cover the whole text. (The escape character is not modelled: no pattern the planner
  binds contains it.)\<close>

fun like_match :: "string \<Rightarrow> string \<Rightarrow> bool" where
  "like_match [] [] = True"
| "like_match (c # cs) [] = False"
| "like_match [] (p # ps) = (p = CHR ''%'' \<and> like_match [] ps)"
| "like_match (c # cs) (p # ps) =
     (if p = CHR ''%'' then like_match (c # cs) ps \<or> like_match cs (p # ps)
      else if p = CHR ''_'' then like_match cs ps
      else c = p \<and> like_match cs ps)"

text \<open>A condition with its placeholders bound, in the order of the text.\<close>

datatype bcond =
    BEq column jval
  | BLike column jval
  | BNotBlank column
  | BAny "bcond list"
  | BZero

fun bind_cond :: "cond \<Rightarrow> jval list \<Rightarrow> (bcond \<times> jval list) option"
  and bind_conds :: "cond list \<Rightarrow> jval list \<Rightarrow> (bcond list \<times> jval list) option" where
  "bind_cond (LowerEq c) ps = (case ps of [] \<Rightarrow> None | p # ps' \<Rightarrow> Some (BEq c p, ps'))"
| "bind_cond (LowerLike c) ps = (case ps of [] \<Rightarrow> None | p # ps' \<Rightarrow> Some (BLike c p, ps'))"
| "bind_cond (NotBlank c) ps = Some (BNotBlank c, ps)"
| "bind_cond (AnyOf cs) ps =
     (if cs = [] then None
      else case bind_conds cs ps of None \<Rightarrow> None | Some (bs, ps') \<Rightarrow> Some (BAny bs, ps'))"
| "bind_cond (Paren c) ps = bind_cond c ps"
| "bind_cond Zero ps = Some (BZero, ps)"
| "bind_conds [] ps = Some ([], ps)"
| "bind_conds (c # cs) ps =
     (case bind_cond c ps of
        None \<Rightarrow> None
      | Some (b, ps') \<Rightarrow>
          (case bind_conds cs ps' of
             None \<Rightarrow> None
           | Some (bs, ps'') \<Rightarrow> Some (b # bs, ps'')))"

text \<open>The text a bound value stands for in a string comparison. A Python string is
  itself and \<^verbatim>\<open>None\<close> is \<^verbatim>\<open>NULL\<close>; how the connector passes any other value is left
  to the parameter \<open>co\<close>.\<close>

definition param_text :: "(jval \<Rightarrow> string option) \<Rightarrow> jval \<Rightarrow> string option" where
  "param_text co p = (case p of JStr s \<Rightarrow> Some s | JNone \<Rightarrow> None | _ \<Rightarrow> co p)"

text \<open>Three-valued truth: \<open>None\<close> is SQL's \<^verbatim>\<open>NULL\<close>.\<close>

definition or3 :: "bool option \<Rightarrow> bool option \<Rightarrow> bool option" where
  "or3 a b = (if a = Some True \<or> b = Some True then Some True
              else if a = None \<or> b = None then None else Some False)"

fun holds :: "(jval \<Rightarrow> string option) \<Rightarrow> 'm row \<Rightarrow> bcond \<Rightarrow> bool option" where
  "holds co r (BEq c p) =
     (case column_value r c of
        None \<Rightarrow> None
      | Some a \<Rightarrow> (case param_text co p of
                     None \<Rightarrow> None
                   | Some b \<Rightarrow> Some (str_lower a = str_lower b)))"
| "holds co r (BLike c p) =
     (case column_value r c of
        None \<Rightarrow> None
      | Some a \<Rightarrow> (case param_text co p of
                     None \<Rightarrow> None
                   | Some b \<Rightarrow> Some (like_match (str_lower a) (str_lower b))))"
| "holds co r (BNotBlank c) =
     Some (case column_value r c of None \<Rightarrow> False | Some a \<Rightarrow> a \<noteq> [])"
| "holds co r (BAny bs) = foldr or3 (map (holds co r) bs) (Some False)"
| "holds co r BZero = Some False"

text \<open>A row passes the \<^verbatim>\<open>WHERE\<close> clause when every conjunct is true (not false, not
  \<^verbatim>\<open>NULL\<close>).\<close>

definition passes :: "(jval \<Rightarrow> string option) \<Rightarrow> bcond list \<Rightarrow> 'm row \<Rightarrow> bool" where
  "passes co bs r = list_all (\<lambda>b. holds co r b = Some True) bs"

text \<open>Reading the pieces as a statement: after the \<^verbatim>\<open>SELECT\<close>, one \<^verbatim>\<open>WHERE\<close> piece,
  then \<^verbatim>\<open>AND\<close> pieces, then the ordering and the limit. An \<^verbatim>\<open>AND\<close> with no
  \<^verbatim>\<open>WHERE\<close> before it, or a second \<^verbatim>\<open>WHERE\<close>, is a syntax error (\<open>None\<close>).\<close>

fun parse_rest ::
    "bool \<Rightarrow> cond list \<Rightarrow> fragment list \<Rightarrow> (cond list \<times> (column \<times> order_key \<times> nat) option) option" where
  "parse_rest w cs [] = Some (cs, None)"
| "parse_rest w cs (Blank # fs) = parse_rest w cs fs"
| "parse_rest w cs (WhereAll clauses # fs) =
     (if w \<or> clauses = [] then None else parse_rest True (cs @ clauses) fs)"
| "parse_rest w cs (WhereGroup c # fs) = (if w then None else parse_rest True (cs @ [c]) fs)"
| "parse_rest w cs (AndGroup c # fs) = (if w then parse_rest True (cs @ [c]) fs else None)"
| "parse_rest w cs (OrderLimit ind col key n # fs) =
     (if fs = [] then Some (cs, Some (col, key, n)) else None)"
| "parse_rest w cs (Select t d # fs) = None"

datatype db_error = MariaDBError | OtherError

text \<open>The database: its two tables, the distance functions it knows by name (each takes
  the bound vector text and a row), how it reads a bound value that is not a string, and
  whether a connection can be had.\<close>

record 'm storage =
  db_airports :: "'m row list"
  db_airlines :: "'m row list"
  db_distance_fns :: "string \<Rightarrow> (jval \<Rightarrow> 'm row \<Rightarrow> real) option"
  db_coerce :: "jval \<Rightarrow> string option"
  db_reachable :: bool

text \<open>A result tuple: \<^verbatim>\<open>(id, name, city, country, image_url, metadata, distance)\<close> for
  airports, \<^verbatim>\<open>(id, name, iata, icao, logo_url, metadata, distance)\<close> for airlines.\<close>

record 'm result_row =
  r0 :: int
  r1 :: string
  r2 :: "string option"
  r3 :: "string option"
  r4 :: "string option"
  r5 :: 'm
  r6 :: real

definition table_rows :: "'m storage \<Rightarrow> table \<Rightarrow> 'm row list" where
  "table_rows db t = (case t of Airports \<Rightarrow> db_airports db | Airlines \<Rightarrow> db_airlines db)"

definition project :: "table \<Rightarrow> ('m row \<Rightarrow> real) \<Rightarrow> 'm row \<Rightarrow> 'm result_row" where
  "project t distf r =
     (case t of
        Airports \<Rightarrow> \<lparr> r0 = row_id r, r1 = row_name r, r2 = row_city r, r3 = row_country r,
                      r4 = row_image_url r, r5 = row_metadata r, r6 = distf r \<rparr>
      | Airlines \<Rightarrow> \<lparr> r0 = row_id r, r1 = row_name r, r2 = row_iata r, r3 = row_icao r,
                      r4 = row_logo_url r, r5 = row_metadata r, r6 = distf r \<rparr>)"

text \<open>The selected distance: the constant \<^verbatim>\<open>0.0\<close>, or a call that takes the first
  bound value.\<close>

definition bind_dist ::
    "'m storage \<Rightarrow> distance_sel \<Rightarrow> jval list \<Rightarrow> (('m row \<Rightarrow> real) \<times> jval list) option" where
  "bind_dist db d ps =
     (case d of
        DistZero \<Rightarrow> Some (\<lambda>r. 0, ps)
      | DistCall fn \<Rightarrow>
          (case ps of
             [] \<Rightarrow> None
           | p # ps' \<Rightarrow> (case db_distance_fns db fn of
                           None \<Rightarrow> None
                         | Some f \<Rightarrow> Some (f p, ps'))))"

text \<open>\<^verbatim>\<open>ORDER BY (col IS NULL OR col='') ASC, key ASC\<close>; rows that tie keep the order
  of the table.\<close>

definition is_blank :: "string option \<Rightarrow> bool" where
  "is_blank v = (case v of None \<Rightarrow> True | Some s \<Rightarrow> s = [])"

definition order_rows ::
    "column \<Rightarrow> order_key \<Rightarrow> ('m row \<Rightarrow> real) \<Rightarrow> 'm row list \<Rightarrow> 'm row list" where
  "order_rows col key distf rows =
     (case key of
        ByName \<Rightarrow> sort_key (\<lambda>r. (is_blank (column_value r col), row_name r)) rows
      | ByDistance \<Rightarrow> sort_key (\<lambda>r. (is_blank (column_value r col), distf r)) rows)"

text \<open>\<^verbatim>\<open>cur.execute(sql, params); cur.fetchall()\<close>.\<close>

definition execute ::
    "'m storage \<Rightarrow> fragment list \<Rightarrow> jval list \<Rightarrow> db_error + 'm result_row list" where
  "execute db sql params =
     (if \<not> db_reachable db then Inl MariaDBError
      else case sql of
        Select t d # rest \<Rightarrow>
          (case parse_rest False [] rest of
             None \<Rightarrow> Inl MariaDBError
           | Some (conds, ol) \<Rightarrow>
               (case bind_dist db d params of
                  None \<Rightarrow> Inl MariaDBError
                | Some (distf, ps) \<Rightarrow>
                    (case bind_conds conds ps of
                       None \<Rightarrow> Inl MariaDBError
                     | Some (bs, ps') \<Rightarrow>
                         if ps' \<noteq> [] then Inl MariaDBError
                         else
                           let kept = filter (passes (db_coerce db) bs) (table_rows db t);
                               out = (case ol of
                                        None \<Rightarrow> kept
                                      | Some (col, key, n) \<Rightarrow>
                                          take n (order_rows col key distf kept))
                           in Inr (map (project t distf) out))))
      | _ \<Rightarrow> Inl MariaDBError)"

text \<open>\<^verbatim>\<open>search_airports_by_text\<close> and \<^verbatim>\<open>search_airlines_by_image\<close>: build the
  statement, hand it to the storage layer, return the rows. The second component is the
  list of statements handed over, so that a caller's result shows whether storage was
  called.\<close>

type_synonym storage_call = "fragment list \<times> jval list"

definition search_airports_by_text ::
    "settings \<Rightarrow> (pyfloat \<Rightarrow> string) \<Rightarrow> 'm storage \<Rightarrow> pyfloat list \<Rightarrow> int \<Rightarrow> filters option
       \<Rightarrow> string option \<Rightarrow> (db_error + 'm result_row list) \<times> storage_call list" where
  "search_airports_by_text st fstr db vec k filters query_text =
     (let (sql, params) = airports_statement st fstr vec k filters query_text
      in (execute db sql params, [(sql, params)]))"

definition search_airlines_by_image ::
    "settings \<Rightarrow> (pyfloat \<Rightarrow> string) \<Rightarrow> 'm storage \<Rightarrow> pyfloat list \<Rightarrow> int \<Rightarrow> filters option
       \<Rightarrow> (db_error + 'm result_row list) \<times> storage_call list" where
  "search_airlines_by_image st fstr db vec k filters =
     (let (sql, params) = airlines_statement st fstr vec k filters
      in (execute db sql params, [(sql, params)]))"

subsection \<open>Requests and responses\<close>

text \<open>\<^verbatim>\<open>TextQuery\<close> and \<^verbatim>\<open>HybridTextQuery\<close>, with the constraints their fields
  declare. A weight is optional in the schema, so it can be absent (\<^verbatim>\<open>null\<close>).\<close>

record text_query =
  body_query :: string
  body_k :: int
  body_filters :: "filters option"

record hybrid_text_query = text_query +
  body_image_base64 :: "string option"
  body_weight_text :: "real option"
  body_weight_image :: "real option"

definition valid_text_query :: "'a text_query_scheme \<Rightarrow> bool" where
  "valid_text_query body \<longleftrightarrow>
     1 \<le> length (body_query body) \<and> 1 \<le> body_k body \<and> body_k body \<le> 10000"

definition valid_weight :: "real option \<Rightarrow> bool" where
  "valid_weight w = (case w of None \<Rightarrow> True | Some x \<Rightarrow> 0 \<le> x \<and> x \<le> 1)"

definition valid_hybrid_text_query :: "hybrid_text_query \<Rightarrow> bool" where
  "valid_hybrid_text_query body \<longleftrightarrow>
     valid_text_query body \<and> valid_weight (body_weight_text body)
       \<and> valid_weight (body_weight_image body)"

record hit =
  hit_id :: int
  hit_name :: string
  hit_city :: "string option"
  hit_country :: "string option"
  hit_url :: "string option"
  hit_metadata :: "jval option"
  hit_distance :: real

record ranked_result =
  rr_count :: nat
  rr_hits :: "hit list"

datatype detail =
    NotOneD string "nat list"
  | DimMismatch string nat int
  | EmbeddingError string
  | ShapeMismatch
  | NotAnImage
  | DbError
  | ServerError
  | UnhandledTypeError

datatype http_error = HTTPException int detail

subsection \<open>Embedding vectors\<close>

text \<open>A NumPy array: its shape and its elements in row-major order.\<close>

record ndarray =
  nd_shape :: "nat list"
  nd_data :: "pyfloat list"

definition ravel :: "ndarray \<Rightarrow> ndarray" where
  "ravel v = \<lparr> nd_shape = [length (nd_data v)], nd_data = nd_data v \<rparr>"

definition ndim :: "ndarray \<Rightarrow> nat" where
  "ndim v = length (nd_shape v)"

definition nd_size :: "ndarray \<Rightarrow> nat" where
  "nd_size v = length (nd_data v)"

definition tolist :: "ndarray \<Rightarrow> pyfloat list" where
  "tolist v = nd_data v"

text \<open>\<^verbatim>\<open>_validate_dim\<close>: raises \<^verbatim>\<open>HTTPException(400)\<close> or returns nothing.\<close>

definition validate_dim :: "settings \<Rightarrow> ndarray \<Rightarrow> string \<Rightarrow> http_error + unit" where
  "validate_dim st vec place =
     (let dim = EMBEDDING_DIM st
      in if ndim vec \<noteq> 1 then Inl (HTTPException 400 (NotOneD place (nd_shape vec)))
         else if int (nd_size vec) \<noteq> dim
           then Inl (HTTPException 400 (DimMismatch place (nd_size vec) dim))
         else Inr ())"

text \<open>Arithmetic of the blend \<^verbatim>\<open>wt * t_vec + wi * i_vec\<close>, element by element, with
  the IEEE rules for the non-finite values; the rounding of the products and sums of the
  blend is not modelled.\<close>

fun fmul :: "real \<Rightarrow> pyfloat \<Rightarrow> pyfloat" where
  "fmul w (Fin a) = Fin (w * a)"
| "fmul w PosInf = (if w > 0 then PosInf else if w < 0 then NegInf else NaN)"
| "fmul w NegInf = (if w > 0 then NegInf else if w < 0 then PosInf else NaN)"
| "fmul w NaN = NaN"

fun fadd :: "pyfloat \<Rightarrow> pyfloat \<Rightarrow> pyfloat" where
  "fadd (Fin a) (Fin b) = Fin (a + b)"
| "fadd NaN y = NaN"
| "fadd x NaN = NaN"
| "fadd PosInf NegInf = NaN"
| "fadd NegInf PosInf = NaN"
| "fadd PosInf y = PosInf"
| "fadd NegInf y = NegInf"
| "fadd x PosInf = PosInf"
| "fadd x NegInf = NegInf"

definition blend :: "real \<Rightarrow> ndarray \<Rightarrow> real \<Rightarrow> ndarray \<Rightarrow> ndarray" where
  "blend wt t_vec wi i_vec =
     \<lparr> nd_shape = nd_shape t_vec,
       nd_data = map2 (\<lambda>a b. fadd (fmul wt a) (fmul wi b)) (nd_data t_vec) (nd_data i_vec) \<rparr>"

text \<open>Step 3 of \<^verbatim>\<open>search_hybrid\<close>: clamp both weights to \<open>[0, 1]\<close> and divide by their
  sum, floored at \<^verbatim>\<open>1e-9\<close>. The weights are doubles, read as the reals they denote.
  An addition or division of doubles yields the exact result rounded to a double, and the
  literal \<^verbatim>\<open>1e-9\<close> is the double nearest to \<open>10\<^sup>-\<^sup>9\<close>: \<open>rnd\<close> is that rounding, which
  the model takes as given. \<^verbatim>\<open>max\<close> and \<^verbatim>\<open>min\<close> return one of their arguments and
  round nothing.\<close>

definition normalize_weights :: "(real \<Rightarrow> real) \<Rightarrow> real \<Rightarrow> real \<Rightarrow> real \<times> real" where
  "normalize_weights rnd wt0 wi0 =
     (let wt = max 0 (min 1 wt0);
          wi = max 0 (min 1 wi0);
          denom = max (rnd (wt + wi)) (rnd (1 / 10 ^ 9))
      in (rnd (wt / denom), rnd (wi / denom)))"

subsection \<open>The endpoints\<close>

text \<open>What the endpoints call and the model takes as given: the two embedding functions
  (\<open>None\<close> when they raise), \<^verbatim>\<open>base64.b64decode\<close>, \<^verbatim>\<open>str\<close> on floats, the rounding
  of a real to a double, and the decoding \<^verbatim>\<open>_as_json\<close> of a metadata column.\<close>

record 'm services =
  embed_text :: "string \<Rightarrow> ndarray option"
  embed_image_bytes :: "string \<Rightarrow> ndarray option"
  b64decode :: "string \<Rightarrow> string option"
  float_str :: "pyfloat \<Rightarrow> string"
  float_round :: "real \<Rightarrow> real"
  as_json :: "'m \<Rightarrow> jval option"

type_synonym response = "(http_error + ranked_result) \<times> storage_call list"

definition airport_hit :: "('m \<Rightarrow> jval option) \<Rightarrow> 'm result_row \<Rightarrow> hit" where
  "airport_hit dec r =
     \<lparr> hit_id = r0 r, hit_name = r1 r, hit_city = r2 r, hit_country = r3 r,
       hit_url = Some (str_strip (or_empty (r4 r))), hit_metadata = dec (r5 r),
       hit_distance = r6 r \<rparr>"

definition airline_hit :: "('m \<Rightarrow> jval option) \<Rightarrow> 'm result_row \<Rightarrow> hit" where
  "airline_hit dec r =
     (let code = str_strip ('' ('' @ or_empty (r2 r) @ ''/'' @ or_empty (r3 r) @ '')'')
      in \<lparr> hit_id = r0 r, hit_name = r1 r @ code, hit_city = None, hit_country = None,
           hit_url = Some (str_strip (or_empty (r4 r))), hit_metadata = dec (r5 r),
           hit_distance = r6 r \<rparr>)"

definition ranked :: "hit list \<Rightarrow> ranked_result" where
  "ranked hs = \<lparr> rr_count = length hs, rr_hits = hs \<rparr>"

text \<open>\<^verbatim>\<open>POST /search/text\<close>.\<close>

definition search_text ::
    "settings \<Rightarrow> 'm services \<Rightarrow> 'm storage \<Rightarrow> 'a text_query_scheme \<Rightarrow> response" where
  "search_text st sv db body =
     (case embed_text sv (body_query body) of
        None \<Rightarrow> (Inl (HTTPException 400 (EmbeddingError ''text'')), [])
      | Some raw_vec \<Rightarrow>
          let vec = ravel raw_vec in
          (case validate_dim st vec ''text'' of
             Inl e \<Rightarrow> (Inl e, [])
           | Inr u \<Rightarrow>
               (case search_airports_by_text st (float_str sv) db (tolist vec) (body_k body)
                       (body_filters body) (Some (body_query body)) of
                  (Inl MariaDBError, calls) \<Rightarrow> (Inl (HTTPException 500 DbError), calls)
                | (Inl OtherError, calls) \<Rightarrow> (Inl (HTTPException 500 ServerError), calls)
                | (Inr rows, calls) \<Rightarrow>
                    (Inr (ranked (map (airport_hit (as_json sv)) rows)), calls))))"

text \<open>\<^verbatim>\<open>POST /search/image\<close>: the uploaded file's content type and bytes, and the
  query parameters \<^verbatim>\<open>k\<close> and \<^verbatim>\<open>has_logo\<close>.\<close>

definition search_image ::
    "settings \<Rightarrow> 'm services \<Rightarrow> 'm storage \<Rightarrow> string option \<Rightarrow> string \<Rightarrow> int \<Rightarrow> bool \<Rightarrow> response" where
  "search_image st sv db content_type data k has_logo =
     (if \<not> (case content_type of None \<Rightarrow> False
             | Some ct \<Rightarrow> ct \<noteq> [] \<and> startswith ct ''image/'')
      then (Inl (HTTPException 400 NotAnImage), [])
      else case embed_image_bytes sv data of
        None \<Rightarrow> (Inl (HTTPException 400 (EmbeddingError ''image'')), [])
      | Some raw_vec \<Rightarrow>
          let vec = ravel raw_vec in
          (case validate_dim st vec ''image'' of
             Inl e \<Rightarrow> (Inl e, [])
           | Inr u \<Rightarrow>
               let filters = (if has_logo then Some [(''has_logo'', JBool True)] else None) in
               (case search_airlines_by_image st (float_str sv) db (tolist vec) k filters of
                  (Inl MariaDBError, calls) \<Rightarrow> (Inl (HTTPException 500 DbError), calls)
                | (Inl OtherError, calls) \<Rightarrow> (Inl (HTTPException 500 ServerError), calls)
                | (Inr rows, calls) \<Rightarrow>
                    (Inr (ranked (map (airline_hit (as_json sv)) rows)), calls))))"

text \<open>\<^verbatim>\<open>POST /search/hybrid\<close>. Step 2 yields the image vector, nothing when no image
  was sent, or the error raised.\<close>

definition hybrid_image_vec ::
    "settings \<Rightarrow> 'm services \<Rightarrow> hybrid_text_query \<Rightarrow> http_error + ndarray option" where
  "hybrid_image_vec st sv body =
     (case body_image_base64 body of
        None \<Rightarrow> Inr None
      | Some b64 \<Rightarrow>
          if b64 = [] then Inr None
          else (case b64decode sv b64 of
                  None \<Rightarrow> Inl (HTTPException 400 (EmbeddingError ''hybrid.image''))
                | Some img_bytes \<Rightarrow>
                    (case embed_image_bytes sv img_bytes of
                       None \<Rightarrow> Inl (HTTPException 400 (EmbeddingError ''hybrid.image''))
                     | Some i_raw \<Rightarrow>
                         let i_vec = ravel i_raw in
                         (case validate_dim st i_vec ''hybrid.image'' of
                            Inl e \<Rightarrow> Inl e
                          | Inr u \<Rightarrow> Inr (Some i_vec)))))"

definition search_hybrid ::
    "settings \<Rightarrow> 'm services \<Rightarrow> 'm storage \<Rightarrow> hybrid_text_query \<Rightarrow> response" where
  "search_hybrid st sv db body =
     (case embed_text sv (body_query body) of
        None \<Rightarrow> (Inl (HTTPException 400 (EmbeddingError ''hybrid.text'')), [])
      | Some t_raw \<Rightarrow>
          let t_vec = ravel t_raw in
          (case validate_dim st t_vec ''hybrid.text'' of
             Inl e \<Rightarrow> (Inl e, [])
           | Inr u \<Rightarrow>
               (case hybrid_image_vec st sv body of
                  Inl e \<Rightarrow> (Inl e, [])
                | Inr i_opt \<Rightarrow>
                    (case (body_weight_text body, body_weight_image body) of
                       (Some wt0, Some wi0) \<Rightarrow>
                         let (wt, wi) = normalize_weights (float_round sv) wt0 wi0 in
                         (case (case i_opt of
                                  Some i_vec \<Rightarrow>
                                    if nd_shape i_vec \<noteq> nd_shape t_vec
                                    then Inl (HTTPException 400 ShapeMismatch)
                                    else Inr (blend wt t_vec wi i_vec)
                                | None \<Rightarrow> Inr t_vec) of
                            Inl e \<Rightarrow> (Inl e, [])
                          | Inr vec \<Rightarrow>
                              (case search_airports_by_text st (float_str sv) db (tolist vec)
                                      (body_k body) (body_filters body) (Some (body_query body)) of
                                 (Inl MariaDBError, calls) \<Rightarrow>
                                   (Inl (HTTPException 500 DbError), calls)
                               | (Inl OtherError, calls) \<Rightarrow>
                                   (Inl (HTTPException 500 DbError), calls)
                               | (Inr rows, calls) \<Rightarrow>
                                   (Inr (ranked (map (airport_hit (as_json sv)) rows)), calls)))
                     | _ \<Rightarrow> (Inl (HTTPException 500 UnhandledTypeError), [])))))"

subsection \<open>Reference notions used to state the properties\<close>

text \<open>\<open>sub\<close> occurs in \<open>s\<close> as a contiguous substring.\<close>

definition is_substring :: "'a list \<Rightarrow> 'a list \<Rightarrow> bool" where
  "is_substring sub s \<longleftrightarrow> (\<exists>pre post. s = pre @ sub @ post)"

text \<open>\<open>t\<close> is a maximal run of ASCII letters of \<open>s\<close>: a non-empty block of letters
  that is bounded on each side by the end of the text or by a character that is not a letter.\<close>

definition maximal_letter_run :: "string \<Rightarrow> string \<Rightarrow> bool" where
  "maximal_letter_run s t \<longleftrightarrow>
     t \<noteq> [] \<and> (\<forall>c\<in>set t. is_ascii_letter c) \<and>
     (\<exists>pre post. s = pre @ t @ post \<and>
        (pre = [] \<or> \<not> is_ascii_letter (last pre)) \<and>
        (post = [] \<or> \<not> is_ascii_letter (hd post)))"


text \<open>A region of the map matches a text: its name occurs in the text, or one of its
  country tokens does.\<close>

definition region_matches :: "string \<Rightarrow> string \<times> string list \<Rightarrow> bool" where
  "region_matches text rc \<longleftrightarrow>
     is_substring (fst rc) text \<or> (\<exists>c\<in>set (snd rc). is_substring c text)"

text \<open>The filter keys the planner reads, the clause each emits when its value is truthy,
  and the values bound for them.\<close>

definition recognized_keys :: "string list" where
  "recognized_keys = [''country'', ''city'', ''style'', ''has_image'', ''has_logo'']"

definition filter_clauses :: "filters \<Rightarrow> cond list" where
  "filter_clauses f =
     (if get_truthy f ''country'' then [LowerEq Country] else [])
     @ (if get_truthy f ''city'' then [LowerEq City] else [])
     @ (if get_truthy f ''style'' then [LowerEq MetaStyle] else [])
     @ (if get_truthy f ''has_image'' then [NotBlank ImageUrl] else [])
     @ (if get_truthy f ''has_logo'' then [NotBlank LogoUrl] else [])"

definition filter_params :: "filters \<Rightarrow> jval list" where
  "filter_params f =
     (if get_truthy f ''country'' then [the (map_of f ''country'')] else [])
     @ (if get_truthy f ''city'' then [the (map_of f ''city'')] else [])
     @ (if get_truthy f ''style'' then [the (map_of f ''style'')] else [])"

definition filter_fragment :: "filters option \<Rightarrow> fragment list" where
  "filter_fragment fl =
     (case fl of None \<Rightarrow> []
      | Some f \<Rightarrow> if filter_clauses f = [] then [] else [WhereAll (filter_clauses f)])"

definition filter_values :: "filters option \<Rightarrow> jval list" where
  "filter_values fl = (case fl of None \<Rightarrow> [] | Some f \<Rightarrow> filter_params f)"


text \<open>\<^verbatim>\<open>text.split(c)\<close>: the pieces of a text between the occurrences of \<open>c\<close>.\<close>

fun split_on :: "char \<Rightarrow> string \<Rightarrow> string list" where
  "split_on c [] = [[]]"
| "split_on c (x # xs) =
     (if x = c then [] # split_on c xs
      else (case split_on c xs of [] \<Rightarrow> [[x]] | w # ws \<Rightarrow> (x # w) # ws))"

text \<open>The keyword group and the region group of a statement, and the values bound for
  them: one parenthesised pair of \<^verbatim>\<open>LIKE\<close> tests per keyword with the pattern
  \<^verbatim>\<open>%kw%\<close> bound twice, one \<^verbatim>\<open>LIKE\<close> test per country token with the token bound.\<close>

definition keyword_group :: "string list \<Rightarrow> cond" where
  "keyword_group kws = Paren (AnyOf (replicate (length kws) keyword_part))"

definition keyword_params :: "string list \<Rightarrow> jval list" where
  "keyword_params kws =
     concat (map (\<lambda>kw. [JStr (''%'' @ kw @ ''%''), JStr (''%'' @ kw @ ''%'')]) kws)"

definition region_group :: "string list \<Rightarrow> cond" where
  "region_group cs = AnyOf (map (\<lambda>c. LowerLike Country) cs)"

text \<open>How a group is attached to the text so far: with \<^verbatim>\<open>AND\<close> when the text contains
  \<^verbatim>\<open>WHERE\<close>, else with \<^verbatim>\<open>WHERE\<close>.\<close>

definition attach :: "fragment list \<Rightarrow> cond \<Rightarrow> fragment" where
  "attach sql c = (if where_in_upper sql then AndGroup c else WhereGroup c)"

text \<open>The retrieval mode, read off the statement: the constant distance is selected in
  region-only mode, a distance call in vector-similarity mode.\<close>

datatype mode = RegionOnly | VectorSimilarity

definition plan_mode :: "fragment list \<Rightarrow> mode option" where
  "plan_mode sql =
     (case sql of
        Select t DistZero # rest \<Rightarrow> Some RegionOnly
      | Select t (DistCall fn) # rest \<Rightarrow> Some VectorSimilarity
      | _ \<Rightarrow> None)"

text \<open>The configured distance function does not itself put \<^verbatim>\<open>WHERE\<close> into the text of
  the \<^verbatim>\<open>SELECT\<close>.\<close>

definition where_free :: "settings \<Rightarrow> bool" where
  "where_free st \<longleftrightarrow> \<not> where_in_upper [Select Airports (distance_expr st)]"

text \<open>The conjuncts of the \<^verbatim>\<open>WHERE\<close> clause of a statement and its ordering and limit,
  when the pieces form a statement.\<close>

definition statement_conds :: "fragment list \<Rightarrow> cond list option" where
  "statement_conds sql =
     (case sql of
        Select t d # rest \<Rightarrow> map_option fst (parse_rest False [] rest)
      | _ \<Rightarrow> None)"

definition statement_limit :: "fragment list \<Rightarrow> nat option" where
  "statement_limit sql =
     (case sql of
        Select t d # rest \<Rightarrow>
          (case parse_rest False [] rest of
             Some (cs, Some (col, key, n)) \<Rightarrow> Some n
           | _ \<Rightarrow> None)
      | _ \<Rightarrow> None)"

text \<open>The conjuncts a statement of the planner is expected to have: the filter clauses,
  then the keyword group when there are keywords, then the region group when a region
  was detected.\<close>

definition filter_conds :: "filters option \<Rightarrow> cond list" where
  "filter_conds fl = (case fl of None \<Rightarrow> [] | Some f \<Rightarrow> filter_clauses f)"

definition keyword_conds :: "string list \<Rightarrow> cond list" where
  "keyword_conds kws = (if kws = [] then [] else [keyword_group kws])"

definition region_conds :: "string list option \<Rightarrow> cond list" where
  "region_conds rc = (case rc of None \<Rightarrow> [] | Some cs \<Rightarrow> [region_group cs])"

definition region_values :: "string list option \<Rightarrow> jval list" where
  "region_values rc = (case rc of None \<Rightarrow> [] | Some cs \<Rightarrow> map JStr cs)"

text \<open>The same conjuncts with their values bound.\<close>

definition bound_filters :: "filters option \<Rightarrow> bcond list" where
  "bound_filters fl =
     (case fl of
        None \<Rightarrow> []
      | Some f \<Rightarrow>
          (if get_truthy f ''country'' then [BEq Country (the (map_of f ''country''))] else [])
          @ (if get_truthy f ''city'' then [BEq City (the (map_of f ''city''))] else [])
          @ (if get_truthy f ''style'' then [BEq MetaStyle (the (map_of f ''style''))] else [])
          @ (if get_truthy f ''has_image'' then [BNotBlank ImageUrl] else [])
          @ (if get_truthy f ''has_logo'' then [BNotBlank LogoUrl] else []))"

definition bound_keyword :: "string \<Rightarrow> bcond" where
  "bound_keyword kw =
     BAny [BLike MetaStyle (JStr (''%'' @ kw @ ''%'')), BLike MetaTags (JStr (''%'' @ kw @ ''%''))]"

definition bound_keywords :: "string list \<Rightarrow> bcond list" where
  "bound_keywords kws = (if kws = [] then [] else [BAny (map bound_keyword kws)])"

definition bound_region :: "string list option \<Rightarrow> bcond list" where
  "bound_region rc =
     (case rc of None \<Rightarrow> [] | Some cs \<Rightarrow> [BAny (map (\<lambda>c. BLike Country (JStr c)) cs)])"

text \<open>The rows the airports statement is expected to return: the table rows that pass
  every bound conjunct, ordered, cut at 1000, and projected.\<close>

definition expected_rows ::
    "'m storage \<Rightarrow> bcond list \<Rightarrow> order_key \<Rightarrow> ('m row \<Rightarrow> real) \<Rightarrow> 'm result_row list" where
  "expected_rows db bs key distf =
     map (project Airports distf)
       (take 1000 (order_rows ImageUrl key distf (filter (passes (db_coerce db) bs) (db_airports db))))"

text \<open>A text without the wildcards of \<^verbatim>\<open>LIKE\<close>.\<close>

definition plain :: "string \<Rightarrow> bool" where
  "plain p \<longleftrightarrow> CHR ''%'' \<notin> set p \<and> CHR ''_'' \<notin> set p"

text \<open>A keyword occurs in a row: it is a substring of the lowercased style attribute or
  of the lowercased tags attribute of the row's metadata (an attribute that is
  \<^verbatim>\<open>NULL\<close> contains nothing).\<close>

definition keyword_occurs :: "string \<Rightarrow> 'm row \<Rightarrow> bool" where
  "keyword_occurs kw r \<longleftrightarrow>
     (\<exists>s. row_meta_style r = Some s \<and> is_substring kw (str_lower s))
     \<or> (\<exists>t. row_meta_tags r = Some t \<and> is_substring kw (str_lower t))"

text \<open>The keywords and the region that \<^verbatim>\<open>search_airports_by_text\<close> derives from a query
  text.\<close>

abbreviation analysed_keywords :: "string option \<Rightarrow> string list" where
  "analysed_keywords q \<equiv> extract_keywords (Some (q_text_of q))"

abbreviation analysed_region :: "string option \<Rightarrow> string list option" where
  "analysed_region q \<equiv> detect_region (Some (q_text_of q))"

text \<open>What is used of rounding to the nearest double: zero is a double, rounding is
  monotone, and in the range of the normal doubles the relative error is at most the unit
  roundoff \<open>2\<^sup>-\<^sup>5\<^sup>3\<close>. Below the smallest normal double \<open>2\<^sup>-\<^sup>1\<^sup>0\<^sup>2\<^sup>2\<close> only monotonicity is
  used.\<close>

definition unit_roundoff :: real where
  "unit_roundoff = 1 / 2 ^ 53"

definition smallest_normal :: real where
  "smallest_normal = 1 / 2 ^ 1022"

definition double_rounding :: "(real \<Rightarrow> real) \<Rightarrow> bool" where
  "double_rounding rnd \<longleftrightarrow>
     rnd 0 = 0
     \<and> (\<forall>x y. x \<le> y \<longrightarrow> rnd x \<le> rnd y)
     \<and> (\<forall>x. smallest_normal \<le> \<bar>x\<bar> \<and> \<bar>x\<bar> \<le> 2 ^ 1023 \<longrightarrow>
            \<bar>rnd x - x\<bar> \<le> unit_roundoff * \<bar>x\<bar>)"

subsection \<open>Example settings, services and storage\<close>

definition demo_settings :: settings where
  "demo_settings = \<lparr> EMBEDDING_DIM = 3, VECTOR_DISTANCE_FN = ''VEC_DISTANCE_COSINE'' \<rparr>"

definition demo_services :: "unit services" where
  "demo_services =
     \<lparr> embed_text = (\<lambda>q. Some \<lparr> nd_shape = [1, 2], nd_data = [Fin 1, Fin 2] \<rparr>),
       embed_image_bytes = (\<lambda>b. Some \<lparr> nd_shape = [3], nd_data = [Fin 1, Fin 2, Fin 3] \<rparr>),
       b64decode = Some,
       float_str = (\<lambda>x. if x = Fin 0 then ''0.0'' else ''1.5''),
       float_round = (\<lambda>x. x),
       as_json = (\<lambda>m. None) \<rparr>"

definition empty_storage :: "unit storage" where
  "empty_storage =
     \<lparr> db_airports = [], db_airlines = [], db_distance_fns = (\<lambda>fn. None),
       db_coerce = (\<lambda>v. None), db_reachable = True \<rparr>"

definition small_settings :: settings where
  "small_settings = \<lparr> EMBEDDING_DIM = 2, VECTOR_DISTANCE_FN = ''VEC_DISTANCE_COSINE'' \<rparr>"

definition demo_row ::
    "int \<Rightarrow> string \<Rightarrow> string option \<Rightarrow> string option \<Rightarrow> string option \<Rightarrow> string option \<Rightarrow> unit row" where
  "demo_row i n ctry img sty tags =
     \<lparr> row_id = i, row_name = n, row_city = None, row_country = ctry, row_iata = None,
       row_icao = None, row_image_url = img, row_logo_url = None, row_meta_style = sty,
       row_meta_tags = tags, row_metadata = () \<rparr>"

definition demo_storage :: "unit storage" where
  "demo_storage =
     \<lparr> db_airports =
         [demo_row 1 ''Incheon'' (Some ''South Korea'') None (Some ''Modern glass'') None,
          demo_row 2 ''Indira Gandhi'' (Some ''India'') (Some ''http://img/del.jpg'') None
            (Some ''[art, Bamboo]''),
          demo_row 3 ''Oslo'' (Some ''Norway'') (Some ''http://img/osl.jpg'') (Some ''wood'') None],
       db_airlines = [],
       db_distance_fns =
         (\<lambda>fn. if fn = ''VEC_DISTANCE_COSINE'' then Some (\<lambda>p r. real_of_int (row_id r)) else None),
       db_coerce = (\<lambda>v. None),
       db_reachable = True \<rparr>"

section \<open>Properties\<close>

subsection \<open>Substring test and letter runs\<close>

lemma startswith_iff: "startswith s p \<longleftrightarrow> (\<exists>post. s = p @ post)"
  by (induction s p rule: startswith.induct) auto

lemma str_in_iff: "str_in sub s \<longleftrightarrow> is_substring sub s"
proof (induction s)
  case Nil
  then show ?case by (auto simp: is_substring_def)
next
  case (Cons c cs)
  have "is_substring sub (c # cs) \<longleftrightarrow> (\<exists>post. c # cs = sub @ post) \<or> is_substring sub cs"
    unfolding is_substring_def
    apply (rule iffI)
     apply (elim exE)
    subgoal for pre post by (cases pre) auto
    apply (elim disjE exE)
     apply (rule exI[of _ "[]"]) apply simp
    subgoal for pre post by (rule exI[of _ "c # pre"]) simp
    done
  with Cons show ?case by (simp add: startswith_iff)
qed

lemma runs_all_letters_only:
  assumes "\<forall>c\<in>set cur. is_ascii_letter c"
  shows "maximal_letter_run cur t \<longleftrightarrow> cur \<noteq> [] \<and> t = cur"
proof
  assume m: "maximal_letter_run cur t"
  then obtain pre post where eq: "cur = pre @ t @ post" and t: "t \<noteq> []"
    and p: "pre = [] \<or> \<not> is_ascii_letter (last pre)"
    and q: "post = [] \<or> \<not> is_ascii_letter (hd post)"
    by (auto simp: maximal_letter_run_def)
  have "pre = []"
  proof (rule ccontr)
    assume "pre \<noteq> []"
    then have "last pre \<in> set cur" using eq by simp
    with assms p \<open>pre \<noteq> []\<close> show False by blast
  qed
  moreover have "post = []"
  proof (rule ccontr)
    assume "post \<noteq> []"
    then have "hd post \<in> set cur" using eq by simp
    with assms q \<open>post \<noteq> []\<close> show False by blast
  qed
  ultimately show "cur \<noteq> [] \<and> t = cur" using eq t by simp
next
  assume "cur \<noteq> [] \<and> t = cur"
  then show "maximal_letter_run cur t"
    using assms unfolding maximal_letter_run_def
    by (intro conjI) (auto intro!: exI[of _ "[]"])
qed

lemma runs_split:
  assumes cur: "\<forall>x\<in>set cur. is_ascii_letter x" and c: "\<not> is_ascii_letter c"
  shows "maximal_letter_run (cur @ c # cs) t \<longleftrightarrow>
          (cur \<noteq> [] \<and> t = cur) \<or> maximal_letter_run cs t"
proof
  assume "maximal_letter_run (cur @ c # cs) t"
  then obtain pre post where eq: "cur @ c # cs = pre @ t @ post" and t: "t \<noteq> []"
    and tl: "\<forall>x\<in>set t. is_ascii_letter x"
    and p: "pre = [] \<or> \<not> is_ascii_letter (last pre)"
    and q: "post = [] \<or> \<not> is_ascii_letter (hd post)"
    by (auto simp: maximal_letter_run_def)
  from eq consider us where "cur = pre @ us" "us @ c # cs = t @ post"
    | us where "cur @ us = pre" "c # cs = us @ t @ post"
    by (auto simp: append_eq_append_conv2)
  then show "(cur \<noteq> [] \<and> t = cur) \<or> maximal_letter_run cs t"
  proof cases
    case 1
    have pre: "pre = []"
    proof (rule ccontr)
      assume "pre \<noteq> []"
      then have "last pre \<in> set cur" using 1 by simp
      with cur p \<open>pre \<noteq> []\<close> show False by blast
    qed
    note outer = 1
    from 1(2) consider (a) vs where "us = t @ vs" "vs @ c # cs = post"
      | (b) vs where "us @ vs = t" "c # cs = vs @ post"
      by (auto simp: append_eq_append_conv2)
    then have "t = cur"
    proof cases
      case a
      have "vs = []"
      proof (rule ccontr)
        assume "vs \<noteq> []"
        then have "hd post = hd vs" "hd vs \<in> set cur" "post \<noteq> []"
          using a outer by auto
        with cur q show False by auto
      qed
      with a outer pre show ?thesis by simp
    next
      case b
      have "vs = []"
      proof (rule ccontr)
        assume "vs \<noteq> []"
        then have "c = hd vs" "hd vs \<in> set t" using b by (cases vs; auto)+
        with tl c show False by auto
      qed
      with b outer pre show ?thesis by simp
    qed
    with t show ?thesis by simp
  next
    case 2
    have "us \<noteq> []"
    proof
      assume "us = []"
      with 2 t have "c = hd t" "hd t \<in> set t" by (cases t; auto)+
      with tl c show False by auto
    qed
    then obtain us' where us: "us = c # us'" using 2(2) by (cases us) auto
    then have cs: "cs = us' @ t @ post" using 2(2) by simp
    have "us' = [] \<or> \<not> is_ascii_letter (last us')"
    proof (cases "us' = []")
      case False
      then have "last pre = last us'" using 2(1) us by auto
      moreover have "pre \<noteq> []" using 2(1) us by auto
      ultimately show ?thesis using p by auto
    qed simp
    with cs t tl q have "maximal_letter_run cs t"
      unfolding maximal_letter_run_def by blast
    then show ?thesis ..
  qed
next
  assume "(cur \<noteq> [] \<and> t = cur) \<or> maximal_letter_run cs t"
  then show "maximal_letter_run (cur @ c # cs) t"
  proof
    assume a: "cur \<noteq> [] \<and> t = cur"
    have "cur @ c # cs = [] @ t @ (c # cs)" using a by simp
    moreover have "\<not> is_ascii_letter (hd (c # cs))" using c by simp
    ultimately show ?thesis using a cur unfolding maximal_letter_run_def by blast
  next
    assume "maximal_letter_run cs t"
    then obtain pre post where eq: "cs = pre @ t @ post" and t: "t \<noteq> []"
      and tl: "\<forall>x\<in>set t. is_ascii_letter x"
      and p: "pre = [] \<or> \<not> is_ascii_letter (last pre)"
      and q: "post = [] \<or> \<not> is_ascii_letter (hd post)"
      by (auto simp: maximal_letter_run_def)
    have "cur @ c # cs = (cur @ c # pre) @ t @ post" using eq by simp
    moreover have "\<not> is_ascii_letter (last (cur @ c # pre))" using p c by auto
    ultimately show ?thesis using t tl q unfolding maximal_letter_run_def by blast
  qed
qed

lemma letter_runs_set:
  "\<forall>x\<in>set cur. is_ascii_letter x \<Longrightarrow>
     set (letter_runs cur s) = {t. maximal_letter_run (cur @ s) t}"
proof (induction s arbitrary: cur)
  case Nil
  then show ?case by (auto simp: runs_all_letters_only)
next
  case (Cons c cs)
  show ?case
  proof (cases "is_ascii_letter c")
    case True
    with Cons.prems have "\<forall>x\<in>set (cur @ [c]). is_ascii_letter x" by simp
    from Cons.IH[OF this] True show ?thesis by simp
  next
    case False
    have "set (letter_runs [] cs) = {t. maximal_letter_run cs t}"
      using Cons.IH[of "[]"] by simp
    with False Cons.prems show ?thesis
      by (auto simp: runs_split)
  qed
qed

lemma findall_letters_set: "set (findall_letters s) = {t. maximal_letter_run s t}"
  using letter_runs_set[of "[]" s] by (simp add: findall_letters_def)


subsection \<open>Region detection: the loop\<close>

lemma region_hit_iff: "region_hit ql rc \<longleftrightarrow> region_matches ql rc"
  by (simp add: region_hit_def region_matches_def str_in_iff list_ex_iff)

lemma detect_region_loop_Some:
  "detect_region_loop R ql = Some cs \<longleftrightarrow>
     (\<exists>i<length R. cs = snd (R ! i) \<and> region_hit ql (R ! i) \<and> (\<forall>j<i. \<not> region_hit ql (R ! j)))"
proof (induction R)
  case Nil
  then show ?case by simp
next
  case (Cons rc R)
  show ?case
  proof (cases "region_hit ql rc")
    case True
    have "(\<exists>i<length (rc # R). cs = snd ((rc # R) ! i) \<and> region_hit ql ((rc # R) ! i)
            \<and> (\<forall>j<i. \<not> region_hit ql ((rc # R) ! j))) \<longleftrightarrow> cs = snd rc"
    proof
      assume "\<exists>i<length (rc # R). cs = snd ((rc # R) ! i) \<and> region_hit ql ((rc # R) ! i)
            \<and> (\<forall>j<i. \<not> region_hit ql ((rc # R) ! j))"
      then obtain i where i: "cs = snd ((rc # R) ! i)" "\<forall>j<i. \<not> region_hit ql ((rc # R) ! j)"
        by blast
      have "i = 0"
      proof (rule ccontr)
        assume "i \<noteq> 0"
        then have "\<not> region_hit ql ((rc # R) ! 0)" using i(2) by blast
        with True show False by simp
      qed
      with i show "cs = snd rc" by simp
    next
      assume "cs = snd rc"
      with True show "\<exists>i<length (rc # R). cs = snd ((rc # R) ! i) \<and> region_hit ql ((rc # R) ! i)
            \<and> (\<forall>j<i. \<not> region_hit ql ((rc # R) ! j))"
        by (intro exI[of _ 0]) simp
    qed
    with True show ?thesis by auto
  next
    case False
    have "(\<exists>i<length (rc # R). cs = snd ((rc # R) ! i) \<and> region_hit ql ((rc # R) ! i)
            \<and> (\<forall>j<i. \<not> region_hit ql ((rc # R) ! j)))
         \<longleftrightarrow> (\<exists>i<length R. cs = snd (R ! i) \<and> region_hit ql (R ! i)
            \<and> (\<forall>j<i. \<not> region_hit ql (R ! j)))" (is "?L \<longleftrightarrow> ?R")
    proof
      assume ?L
      then obtain i where i: "i < length (rc # R)" "cs = snd ((rc # R) ! i)"
        "region_hit ql ((rc # R) ! i)" "\<forall>j<i. \<not> region_hit ql ((rc # R) ! j)"
        by blast
      with False obtain i' where i': "i = Suc i'" by (cases i) auto
      have "\<forall>j<i'. \<not> region_hit ql (R ! j)"
      proof (intro allI impI)
        fix j assume "j < i'"
        then have "Suc j < i" using i' by simp
        with i(4) have "\<not> region_hit ql ((rc # R) ! Suc j)" by blast
        then show "\<not> region_hit ql (R ! j)" by simp
      qed
      with i i' show ?R by (intro exI[of _ i']) simp
    next
      assume ?R
      then obtain i where i: "i < length R" "cs = snd (R ! i)"
        "region_hit ql (R ! i)" "\<forall>j<i. \<not> region_hit ql (R ! j)"
        by blast
      have "\<forall>j<Suc i. \<not> region_hit ql ((rc # R) ! j)"
      proof (intro allI impI)
        fix j assume "j < Suc i"
        then show "\<not> region_hit ql ((rc # R) ! j)"
          using False i(4) by (cases j) auto
      qed
      with i show ?L by (intro exI[of _ "Suc i"]) simp
    qed
    with False Cons.IH show ?thesis by simp
  qed
qed

lemma detect_region_loop_None:
  "detect_region_loop R ql = None \<longleftrightarrow> (\<forall>i<length R. \<not> region_hit ql (R ! i))"
proof (induction R)
  case Nil
  then show ?case by simp
next
  case (Cons rc R)
  show ?case
  proof (cases "region_hit ql rc")
    case True
    then have "\<not> (\<forall>i<length (rc # R). \<not> region_hit ql ((rc # R) ! i))"
      by (auto intro!: exI[of _ 0])
    with True show ?thesis by simp
  next
    case False
    have "(\<forall>i<length (rc # R). \<not> region_hit ql ((rc # R) ! i))
            \<longleftrightarrow> (\<forall>i<length R. \<not> region_hit ql (R ! i))"
      using False by (auto simp: nth_Cons split: nat.splits)
    with False Cons.IH show ?thesis by simp
  qed
qed

lemma detect_region_nonempty: "detect_region q = Some cs \<Longrightarrow> cs \<noteq> []"
proof -
  assume "detect_region q = Some cs"
  then obtain i where "i < length REGION_KEYWORDS" "cs = snd (REGION_KEYWORDS ! i)"
    unfolding detect_region_def detect_region_loop_Some by blast
  then have "cs \<in> snd ` set REGION_KEYWORDS" by (metis nth_mem imageI)
  then show ?thesis by (auto simp: REGION_KEYWORDS_def)
qed


subsection \<open>Filters: the clauses emitted\<close>

lemma add_value_filter_eq:
  "add_value_filter f k c cp =
     (fst cp @ (if get_truthy f k then [c] else []),
      snd cp @ (if get_truthy f k then [the (map_of f k)] else []))"
  by (cases cp) (auto simp: add_value_filter_def get_truthy_def split: option.splits)

lemma add_flag_filter_eq:
  "add_flag_filter f k c cp = (fst cp @ (if get_truthy f k then [c] else []), snd cp)"
  by (cases cp) (auto simp: add_flag_filter_def get_truthy_def split: option.splits)

lemma get_truthy_Nil: "get_truthy [] k = False"
  by (simp add: get_truthy_def)

lemma apply_filters_eq:
  "apply_filters sql fl ps = (sql @ filter_fragment fl, ps @ filter_values fl)"
proof (cases fl)
  case None
  then show ?thesis by (simp add: apply_filters_def filter_fragment_def filter_values_def)
next
  case (Some f)
  show ?thesis
  proof (cases "f = []")
    case True
    with Some show ?thesis
      by (simp add: apply_filters_def filter_fragment_def filter_values_def filter_clauses_def
            filter_params_def get_truthy_Nil)
  next
    case False
    with Some show ?thesis
      unfolding apply_filters_def Let_def add_value_filter_eq add_flag_filter_eq
        filter_fragment_def filter_values_def filter_clauses_def filter_params_def
      by simp
  qed
qed

lemma filter_all_falsy:
  assumes "\<forall>key\<in>set recognized_keys. \<not> get_truthy f key"
  shows "filter_clauses f = []" "filter_params f = []"
  using assms by (simp_all add: recognized_keys_def filter_clauses_def filter_params_def)

lemma filter_agree:
  assumes "\<forall>key\<in>set recognized_keys. get_truthy f key = get_truthy g key"
    and "\<forall>key\<in>set [''country'', ''city'', ''style''].
           get_truthy f key \<longrightarrow> map_of f key = map_of g key"
  shows "filter_clauses f = filter_clauses g" "filter_params f = filter_params g"
  using assms by (simp_all add: recognized_keys_def filter_clauses_def filter_params_def)


subsection \<open>Splitting a joined text\<close>

lemma split_on_join:
  "ps \<noteq> [] \<Longrightarrow> \<forall>p\<in>set ps. c \<notin> set p \<Longrightarrow> split_on c (str_join [c] ps) = ps"
proof (induction "[c]" ps rule: str_join.induct)
  case 1
  then show ?case by simp
next
  case (2 p)
  then have "c \<notin> set p" by simp
  then have "split_on c p = [p]" by (induction p) auto
  then show ?case by simp
next
  case (3 p q ps)
  then have ih: "split_on c (str_join [c] (q # ps)) = q # ps" by simp
  from 3 have "c \<notin> set p" by simp
  then have "split_on c (p @ c # str_join [c] (q # ps)) = p # q # ps"
    using ih by (induction p) auto
  then show ?case by simp
qed


subsection \<open>Dimension check\<close>

lemma validate_dim_ravel:
  "validate_dim st (ravel raw) w =
     (if int (length (nd_data raw)) = EMBEDDING_DIM st then Inr ()
      else Inl (HTTPException 400 (DimMismatch w (length (nd_data raw)) (EMBEDDING_DIM st))))"
  by (simp add: validate_dim_def ravel_def ndim_def nd_size_def Let_def)


subsection \<open>The statement in closed form\<close>

lemma keyword_loop_eq:
  "keyword_loop kws parts ps =
     (parts @ replicate (length kws) keyword_part, ps @ keyword_params kws)"
proof (induction kws arbitrary: parts ps)
  case Nil
  then show ?case by (simp add: keyword_params_def)
next
  case (Cons kw kws)
  show ?case
    by (simp add: Cons.IH Let_def keyword_params_def replicate_app_Cons_same)
qed

lemma keyword_hit_eq:
  "keyword_hit_sql_and_params kws =
     (if kws = [] then (Zero, []) else (keyword_group kws, keyword_params kws))"
  by (simp add: keyword_hit_sql_and_params_def keyword_loop_eq keyword_group_def)

lemma keyword_params_Nil: "keyword_params [] = []"
  by (simp add: keyword_params_def)

lemma bool_region_detect: "bool_region (detect_region q) \<longleftrightarrow> detect_region q \<noteq> None"
  by (cases "detect_region q") (auto simp: bool_region_def dest: detect_region_nonempty)

lemma is_region_search_eq:
  "is_region_search q \<longleftrightarrow>
     detect_region (Some (q_text_of q)) \<noteq> None \<and> extract_keywords (Some (q_text_of q)) = []"
  by (simp add: is_region_search_def Let_def bool_region_detect)

lemma airports_statement_eq:
  "airports_statement st fstr vec k fl q =
    (let kws = extract_keywords (Some (q_text_of q));
         rc = detect_region (Some (q_text_of q));
         rs = is_region_search q;
         sql1 = [Select Airports (if rs then DistZero else distance_expr st)] @ filter_fragment fl;
         sql2 = sql1 @ (if kws = [] then [] else [attach sql1 (keyword_group kws), Blank]);
         sql3 = sql2 @ (case rc of None \<Rightarrow> [] | Some cs \<Rightarrow> [attach sql2 (region_group cs)])
     in (sql3 @ [OrderLimit 8 ImageUrl (if rs then ByName else ByDistance) 1000],
         (if rs then [] else [JStr (vec_text fstr vec)]) @ filter_values fl
           @ keyword_params kws
           @ (case rc of None \<Rightarrow> [] | Some cs \<Rightarrow> map JStr cs)))"
proof (cases "detect_region (Some (q_text_of q))")
  case None
  then show ?thesis
    by (simp add: airports_statement_def is_region_search_def Let_def apply_filters_eq
          keyword_hit_eq bool_region_def attach_def keyword_params_Nil)
next
  case (Some cs)
  then have "cs \<noteq> []" by (rule detect_region_nonempty)
  with Some show ?thesis
    by (simp add: airports_statement_def is_region_search_def Let_def apply_filters_eq
          keyword_hit_eq bool_region_def attach_def keyword_params_Nil region_group_def)
qed

lemma str_upper_append: "str_upper (a @ b) = str_upper a @ str_upper b"
  by (simp add: str_upper_def)

lemma render_sql_append: "render_sql (a @ b) = render_sql a @ render_sql b"
  by (simp add: render_sql_def)

lemma str_in_middle: "str_in w (a @ w @ b)"
  unfolding str_in_iff is_substring_def by blast

lemma upper_WHERE: "str_upper '' WHERE '' = '' WHERE ''"
  by (simp add: str_upper_def upper_char_def ascii_lowercase_def ascii_uppercase_def)

lemma where_in_upper_WhereAll: "where_in_upper (xs @ WhereAll cs # ys)"
proof -
  have "render_sql (xs @ WhereAll cs # ys)
          = render_sql xs @ '' '' @ ''WHERE'' @ ('' '' @ str_join '' AND '' (map render_cond cs)
              @ render_sql ys)"
    by (simp add: render_sql_def)
  then have "str_upper (render_sql (xs @ WhereAll cs # ys))
          = str_upper (render_sql xs @ '' '') @ ''WHERE'' @ str_upper ('' '' @ str_join '' AND '' (map render_cond cs)
              @ render_sql ys)"
    by (simp add: str_upper_def upper_char_def ascii_lowercase_def ascii_uppercase_def)
  then show ?thesis unfolding where_in_upper_def by (simp only: str_in_middle)
qed

lemma where_in_upper_WhereGroup: "where_in_upper (xs @ WhereGroup c # ys)"
proof -
  have "render_sql (xs @ WhereGroup c # ys)
          = render_sql xs @ '' '' @ ''WHERE'' @ ('' ('' @ render_cond c @ '')'' @ render_sql ys)"
    by (simp add: render_sql_def)
  then have "str_upper (render_sql (xs @ WhereGroup c # ys))
          = str_upper (render_sql xs @ '' '') @ ''WHERE'' @ str_upper ('' ('' @ render_cond c @ '')'' @ render_sql ys)"
    by (simp add: str_upper_def upper_char_def ascii_lowercase_def ascii_uppercase_def)
  then show ?thesis unfolding where_in_upper_def by (simp only: str_in_middle)
qed

lemma where_in_upper_region_head: "\<not> where_in_upper [Select Airports DistZero]"
  unfolding where_in_upper_def by code_simp

lemma where_free_default: "where_free default_settings"
  unfolding where_free_def where_in_upper_def by code_simp


subsection \<open>Reading the statement back\<close>

lemma str_in_append_left: "str_in w a \<Longrightarrow> str_in w (a @ b)"
  unfolding str_in_iff is_substring_def by (metis append.assoc)

lemma where_in_upper_mono: "where_in_upper xs \<Longrightarrow> where_in_upper (xs @ ys)"
  unfolding where_in_upper_def render_sql_append str_upper_append
  by (rule str_in_append_left)

lemma head_where_free:
  "where_free st \<Longrightarrow> \<not> where_in_upper [Select Airports (if rs then DistZero else distance_expr st)]"
  by (simp add: where_free_def where_in_upper_region_head)

lemma filter_fragment_cases:
  "filter_fragment fl = (if filter_conds fl = [] then [] else [WhereAll (filter_conds fl)])"
  by (cases fl) (simp_all add: filter_fragment_def filter_conds_def)

lemma parse_statement_gen:
  assumes h: "\<not> where_in_upper [Select t d]"
  shows "parse_rest False []
           (let sql1 = [Select t d] @ filter_fragment fl;
                sql2 = sql1 @ (if kws = [] then [] else [attach sql1 (keyword_group kws), Blank]);
                sql3 = sql2 @ (case rc of None \<Rightarrow> [] | Some cs \<Rightarrow> [attach sql2 (region_group cs)])
            in tl (sql3 @ [OrderLimit i col key n]))
         = Some (filter_conds fl @ keyword_conds kws @ region_conds rc, Some (col, key, n))"
proof -
  have w1: "where_in_upper ([Select t d] @ filter_fragment fl) \<longleftrightarrow> filter_conds fl \<noteq> []"
    using h where_in_upper_WhereAll[of "[Select t d]" "filter_conds fl" "[]"]
    by (simp add: filter_fragment_cases)
  have w2: "where_in_upper ([Select t d] @ filter_fragment fl @ [attach S g, Blank] ) \<longleftrightarrow> True"
    if "S = [Select t d] @ filter_fragment fl" for S g
  proof (cases "filter_conds fl = []")
    case True
    then have "attach S g = WhereGroup g" using that w1 by (simp add: attach_def)
    then show ?thesis
      using where_in_upper_WhereGroup[of "[Select t d] @ filter_fragment fl" g "[Blank]"]
      by simp
  next
    case False
    then have "where_in_upper ([Select t d] @ filter_fragment fl)" using w1 by simp
    from where_in_upper_mono[OF this, of "[attach S g, Blank]"] show ?thesis by simp
  qed
  show ?thesis
  proof (cases "kws = []")
    case True
    then show ?thesis
      using w1
      by (cases rc; cases "filter_conds fl = []")
         (simp_all add: Let_def filter_fragment_cases attach_def keyword_conds_def region_conds_def)
  next
    case False
    then show ?thesis
      using w1 w2[OF refl]
      by (cases rc; cases "filter_conds fl = []")
         (simp_all add: Let_def filter_fragment_cases attach_def keyword_conds_def region_conds_def)
  qed
qed

lemma airports_statement_parse:
  assumes "where_free st"
  shows "parse_rest False [] (tl (fst (airports_statement st fstr vec k fl q)))
         = Some (filter_conds fl @ keyword_conds (extract_keywords (Some (q_text_of q)))
                   @ region_conds (detect_region (Some (q_text_of q))),
                 Some (ImageUrl, (if is_region_search q then ByName else ByDistance), 1000))"
  using parse_statement_gen[OF head_where_free[OF assms], of "is_region_search q" fl
          "extract_keywords (Some (q_text_of q))" "detect_region (Some (q_text_of q))"
          8 ImageUrl "if is_region_search q then ByName else ByDistance" 1000]
  by (simp add: airports_statement_eq Let_def)

lemma airports_statement_head:
  "hd (fst (airports_statement st fstr vec k fl q))
     = Select Airports (if is_region_search q then DistZero else distance_expr st)"
  "fst (airports_statement st fstr vec k fl q) \<noteq> []"
  by (simp_all add: airports_statement_eq Let_def)

lemma airports_statement_params:
  "snd (airports_statement st fstr vec k fl q)
     = (if is_region_search q then [] else [JStr (vec_text fstr vec)]) @ filter_values fl
         @ keyword_params (extract_keywords (Some (q_text_of q)))
         @ region_values (detect_region (Some (q_text_of q)))"
  by (simp add: airports_statement_eq Let_def region_values_def)

lemma parse_rest_order_limit:
  "parse_rest w cs (fs @ [OrderLimit i col key n]) = Some (cs', ol) \<Longrightarrow> ol = Some (col, key, n)"
  by (induction w cs fs rule: parse_rest.induct) (auto split: if_splits)

lemma execute_limit:
  assumes "execute db (sql @ [OrderLimit i col key n]) ps = Inr rows"
  shows "length rows \<le> n"
proof (cases sql)
  case Nil
  with assms show ?thesis by (simp add: execute_def split: if_splits)
next
  case (Cons f fs)
  with assms obtain t d where f: "f = Select t d"
    by (cases f) (auto simp: execute_def split: if_splits)
  from assms Cons f obtain conds ol where p: "parse_rest False [] (fs @ [OrderLimit i col key n]) = Some (conds, ol)"
    by (auto simp: execute_def split: if_splits option.splits)
  then have ol: "ol = Some (col, key, n)" by (rule parse_rest_order_limit)
  from assms Cons f p ol show ?thesis
    by (auto simp: execute_def Let_def split: if_splits option.splits prod.splits)
qed


subsection \<open>Binding the placeholders\<close>

lemma bind_conds_append:
  "bind_conds (xs @ ys) ps =
     (case bind_conds xs ps of
        None \<Rightarrow> None
      | Some (bs, ps') \<Rightarrow>
          (case bind_conds ys ps' of
             None \<Rightarrow> None
           | Some (bs', ps'') \<Rightarrow> Some (bs @ bs', ps'')))"
  by (induction xs arbitrary: ps) (auto split: option.splits)

lemma bind_filters:
  "bind_conds (filter_conds fl) (filter_values fl @ rest) = Some (bound_filters fl, rest)"
proof (cases fl)
  case None
  then show ?thesis by (simp add: filter_conds_def filter_values_def bound_filters_def)
next
  case (Some f)
  have a: "bind_conds ((if b then [LowerEq c] else []) @ xs) ((if b then [v] else []) @ ps)
        = (case bind_conds xs ps of None \<Rightarrow> None
           | Some (bs, ps') \<Rightarrow> Some ((if b then [BEq c v] else []) @ bs, ps'))" for b c v xs ps
    by (auto split: option.splits)
  have b: "bind_conds ((if b then [NotBlank c] else []) @ xs) ps
        = (case bind_conds xs ps of None \<Rightarrow> None
           | Some (bs, ps') \<Rightarrow> Some ((if b then [BNotBlank c] else []) @ bs, ps'))" for b c xs ps
    by (auto split: option.splits)
  have c: "bind_conds (if b then [NotBlank c] else []) ps
        = Some ((if b then [BNotBlank c] else []), ps)" for b c ps
    by auto
  from Some show ?thesis
    unfolding filter_conds_def filter_values_def bound_filters_def filter_clauses_def
      filter_params_def
    by (simp only: option.case append_assoc a b c) simp
qed

lemma bind_keyword_parts:
  "bind_conds (replicate (length kws) keyword_part) (keyword_params kws @ rest)
     = Some (map bound_keyword kws, rest)"
  by (induction kws) (simp_all add: keyword_params_def keyword_part_def bound_keyword_def)

lemma bind_keywords:
  "bind_conds (keyword_conds kws) (keyword_params kws @ rest) = Some (bound_keywords kws, rest)"
  by (simp add: keyword_conds_def bound_keywords_def keyword_group_def bind_keyword_parts
        keyword_params_Nil)

lemma bind_region_parts:
  "bind_conds (map (\<lambda>c. LowerLike Country) cs) (map JStr cs @ rest)
     = Some (map (\<lambda>c. BLike Country (JStr c)) cs, rest)"
  by (induction cs) simp_all

lemma bind_region:
  "rc \<noteq> Some [] \<Longrightarrow>
   bind_conds (region_conds rc) (region_values rc @ rest) = Some (bound_region rc, rest)"
  by (cases rc)
     (simp_all add: region_conds_def region_values_def bound_region_def region_group_def
        bind_region_parts)

lemma bind_statement:
  assumes "rc \<noteq> Some []"
  shows "bind_conds (filter_conds fl @ keyword_conds kws @ region_conds rc)
           (filter_values fl @ keyword_params kws @ region_values rc)
         = Some (bound_filters fl @ bound_keywords kws @ bound_region rc, [])"
  using bind_filters[of fl "keyword_params kws @ region_values rc"]
    bind_keywords[of kws "region_values rc"] bind_region[OF assms, of "[]"]
  by (simp add: bind_conds_append)


subsection \<open>Executing the statement\<close>

lemma execute_airports_statement:
  assumes wf: "where_free st" and re: "db_reachable db"
    and d: "bind_dist db (if is_region_search q then DistZero else distance_expr st)
              (snd (airports_statement st fstr vec k fl q))
            = Some (distf, filter_values fl
                 @ keyword_params (extract_keywords (Some (q_text_of q)))
                 @ region_values (detect_region (Some (q_text_of q))))"
  shows "execute db (fst (airports_statement st fstr vec k fl q))
           (snd (airports_statement st fstr vec k fl q))
         = Inr (expected_rows db
                  (bound_filters fl @ bound_keywords (extract_keywords (Some (q_text_of q)))
                     @ bound_region (detect_region (Some (q_text_of q))))
                  (if is_region_search q then ByName else ByDistance) distf)"
proof -
  let ?sql = "fst (airports_statement st fstr vec k fl q)"
  let ?d = "if is_region_search q then DistZero else distance_expr st"
  have s: "?sql = Select Airports ?d # tl ?sql"
    using airports_statement_head[of st fstr vec k fl q] by (cases ?sql) auto
  have ne: "detect_region (Some (q_text_of q)) \<noteq> Some []"
    using detect_region_nonempty by blast
  have "execute db (Select Airports ?d # tl ?sql) (snd (airports_statement st fstr vec k fl q))
         = Inr (expected_rows db
                  (bound_filters fl @ bound_keywords (extract_keywords (Some (q_text_of q)))
                     @ bound_region (detect_region (Some (q_text_of q))))
                  (if is_region_search q then ByName else ByDistance) distf)"
    unfolding execute_def
    by (simp add: re airports_statement_parse[OF wf] d bind_statement[OF ne] Let_def
          expected_rows_def table_rows_def del: bind_conds.simps)
  with s show ?thesis by simp
qed

lemma bind_dist_region:
  "is_region_search q \<Longrightarrow>
   bind_dist db (if is_region_search q then DistZero else distance_expr st)
       (snd (airports_statement st fstr vec k fl q))
     = Some (\<lambda>r. 0, filter_values fl
                 @ keyword_params (extract_keywords (Some (q_text_of q)))
                 @ region_values (detect_region (Some (q_text_of q))))"
  by (simp add: bind_dist_def airports_statement_params)

lemma bind_dist_vector:
  "\<not> is_region_search q \<Longrightarrow> distance_expr st = DistCall fn \<Longrightarrow> db_distance_fns db fn = Some f \<Longrightarrow>
   bind_dist db (if is_region_search q then DistZero else distance_expr st)
       (snd (airports_statement st fstr vec k fl q))
     = Some (f (JStr (vec_text fstr vec)), filter_values fl
                 @ keyword_params (extract_keywords (Some (q_text_of q)))
                 @ region_values (detect_region (Some (q_text_of q))))"
  by (simp add: bind_dist_def airports_statement_params)

lemma airports_statement_snoc:
  "\<exists>sql key. fst (airports_statement st fstr vec k fl q) = sql @ [OrderLimit 8 ImageUrl key 1000]"
  by (simp add: airports_statement_eq Let_def)

lemma airlines_statement_snoc:
  "\<exists>sql. fst (airlines_statement st fstr vec k fl) = sql @ [OrderLimit 4 LogoUrl ByDistance 1000]"
  by (simp add: airlines_statement_def Let_def apply_filters_eq)

lemma search_airports_limit:
  "fst (search_airports_by_text st fstr db vec k fl q) = Inr rows \<Longrightarrow> length rows \<le> 1000"
proof -
  assume a: "fst (search_airports_by_text st fstr db vec k fl q) = Inr rows"
  obtain sql key where s: "fst (airports_statement st fstr vec k fl q) = sql @ [OrderLimit 8 ImageUrl key 1000]"
    using airports_statement_snoc by blast
  from a have "execute db (fst (airports_statement st fstr vec k fl q))
                 (snd (airports_statement st fstr vec k fl q)) = Inr rows"
    by (simp add: search_airports_by_text_def split: prod.splits)
  with s show ?thesis using execute_limit by metis
qed

lemma search_airlines_limit:
  "fst (search_airlines_by_image st fstr db vec k fl) = Inr rows \<Longrightarrow> length rows \<le> 1000"
proof -
  assume a: "fst (search_airlines_by_image st fstr db vec k fl) = Inr rows"
  obtain sql where s: "fst (airlines_statement st fstr vec k fl) = sql @ [OrderLimit 4 LogoUrl ByDistance 1000]"
    using airlines_statement_snoc by blast
  from a have "execute db (fst (airlines_statement st fstr vec k fl))
                 (snd (airlines_statement st fstr vec k fl)) = Inr rows"
    by (simp add: search_airlines_by_image_def split: prod.splits)
  with s show ?thesis using execute_limit by metis
qed


subsection \<open>The endpoints and the limit\<close>

lemma tolist_ravel: "tolist (ravel v) = nd_data v"
  by (simp add: tolist_def ravel_def)

lemma search_text_ok:
  assumes "embed_text sv (body_query body) = Some raw"
    and "int (length (nd_data raw)) = EMBEDDING_DIM st"
    and "fst (search_airports_by_text st (float_str sv) db (nd_data raw) (body_k body)
               (body_filters body) (Some (body_query body))) = Inr rows"
  shows "search_text st sv db body
           = (Inr (ranked (map (airport_hit (as_json sv)) rows)),
              [airports_statement st (float_str sv) (nd_data raw) (body_k body)
                 (body_filters body) (Some (body_query body))])"
  using assms
  by (simp add: search_text_def Let_def validate_dim_ravel tolist_ravel
        search_airports_by_text_def split: prod.splits)

lemma search_airports_limit_pair:
  "search_airports_by_text st fstr db vec k fl q = (Inr rows, c) \<Longrightarrow> length rows \<le> 1000"
  using search_airports_limit[of st fstr db vec k fl q rows] by simp

lemma search_airlines_limit_pair:
  "search_airlines_by_image st fstr db vec k fl = (Inr rows, c) \<Longrightarrow> length rows \<le> 1000"
  using search_airlines_limit[of st fstr db vec k fl rows] by simp

lemma search_text_limit:
  "search_text st sv db body = (Inr res, calls) \<Longrightarrow>
     rr_count res \<le> 1000 \<and> rr_count res = length (rr_hits res)"
  by (auto simp: search_text_def Let_def ranked_def
        split: option.splits sum.splits db_error.splits prod.splits
        dest: search_airports_limit_pair)

lemma search_hybrid_limit:
  "search_hybrid st sv db hb = (Inr res, calls) \<Longrightarrow>
     rr_count res \<le> 1000 \<and> rr_count res = length (rr_hits res)"
  by (auto simp: search_hybrid_def Let_def ranked_def
        split: option.splits sum.splits db_error.splits prod.splits if_splits
        dest: search_airports_limit_pair)

lemma search_image_limit:
  "search_image st sv db ct data k has_logo = (Inr res, calls) \<Longrightarrow>
     rr_count res \<le> 1000 \<and> rr_count res = length (rr_hits res)"
  by (auto simp: search_image_def Let_def ranked_def
        split: option.splits sum.splits db_error.splits prod.splits if_splits
        dest: search_airlines_limit_pair)

lemma search_airports_fst:
  "fst (search_airports_by_text st fstr db vec k fl q)
     = execute db (fst (airports_statement st fstr vec k fl q))
         (snd (airports_statement st fstr vec k fl q))"
  by (simp add: search_airports_by_text_def split: prod.splits)

lemma where_free_small: "where_free small_settings"
  unfolding where_free_def where_in_upper_def by code_simp

lemma region_search_asia: "is_region_search (Some ''airports in asia'')"
  by code_simp


subsection \<open>Pattern matching and the keyword group\<close>

lemma like_match_percent: "like_match s ''%''"
  by (induction s) simp_all

lemma like_match_plain_prefix:
  "plain p \<Longrightarrow> like_match s (p @ ''%'') \<longleftrightarrow> startswith s p"
proof (induction p arbitrary: s)
  case Nil
  then show ?case by (simp add: like_match_percent)
next
  case (Cons a p)
  then have a: "a \<noteq> CHR ''%''" "a \<noteq> CHR ''_''" and p: "plain p"
    by (auto simp: plain_def)
  show ?case
  proof (cases s)
    case Nil
    with a show ?thesis by simp
  next
    case (Cons c cs)
    with a Cons.IH[OF p, of cs] show ?thesis by auto
  qed
qed

lemma like_match_plain: "plain p \<Longrightarrow> like_match s p \<longleftrightarrow> s = p"
proof (induction p arbitrary: s)
  case Nil
  then show ?case by (cases s) simp_all
next
  case (Cons a p)
  then have a: "a \<noteq> CHR ''%''" "a \<noteq> CHR ''_''" and p: "plain p"
    by (auto simp: plain_def)
  show ?case
  proof (cases s)
    case Nil
    with a show ?thesis by simp
  next
    case (Cons c cs)
    with a Cons.IH[OF p, of cs] show ?thesis by auto
  qed
qed

lemma like_match_leading_percent:
  "like_match s (CHR ''%'' # q) \<longleftrightarrow> (\<exists>pre post. s = pre @ post \<and> like_match post q)"
proof (induction s)
  case Nil
  then show ?case by simp
next
  case (Cons c cs)
  have "(\<exists>pre post. c # cs = pre @ post \<and> like_match post q)
          \<longleftrightarrow> like_match (c # cs) q \<or> (\<exists>pre post. cs = pre @ post \<and> like_match post q)"
    (is "?L \<longleftrightarrow> ?R")
  proof
    assume ?L
    then obtain pre post where e: "c # cs = pre @ post" "like_match post q" by blast
    show ?R
    proof (cases pre)
      case Nil
      with e show ?thesis by simp
    next
      case (Cons a pre')
      with e have "cs = pre' @ post" by simp
      with e show ?thesis by blast
    qed
  next
    assume ?R
    then show ?L
    proof
      assume "like_match (c # cs) q"
      then have "c # cs = [] @ (c # cs) \<and> like_match (c # cs) q" by simp
      then show ?L by blast
    next
      assume "\<exists>pre post. cs = pre @ post \<and> like_match post q"
      then obtain pre post where "cs = pre @ post" "like_match post q" by blast
      then have "c # cs = (c # pre) @ post \<and> like_match post q" by simp
      then show ?L by blast
    qed
  qed
  with Cons show ?case by simp
qed

lemma like_match_contains:
  assumes "plain p"
  shows "like_match s (''%'' @ p @ ''%'') \<longleftrightarrow> is_substring p s"
proof -
  have "like_match s (''%'' @ p @ ''%'') \<longleftrightarrow> (\<exists>pre post. s = pre @ post \<and> startswith post p)"
    using like_match_leading_percent[of s "p @ ''%''"] like_match_plain_prefix[OF assms]
    by simp
  also have "\<dots> \<longleftrightarrow> is_substring p s"
    unfolding startswith_iff is_substring_def by blast
  finally show ?thesis .
qed

lemma lower_char_special [simp]:
  "lower_char (CHR ''%'') = CHR ''%''" "lower_char (CHR ''_'') = CHR ''_''"
  by (simp_all add: lower_char_def ascii_uppercase_def ascii_lowercase_def)

lemma whitelist_plain_lower:
  "kw \<in> KEYWORD_WHITELIST \<Longrightarrow> plain kw \<and> str_lower kw = kw"
  unfolding KEYWORD_WHITELIST_def plain_def str_lower_def lower_char_def
    ascii_uppercase_def ascii_lowercase_def
  by (elim insertE emptyE; simp)

lemma foldr_or3_True:
  "foldr or3 xs (Some False) = Some True \<longleftrightarrow> Some True \<in> set xs"
  by (induction xs) (auto simp: or3_def)

lemma holds_bound_keyword:
  assumes "plain kw" "str_lower kw = kw"
  shows "holds co r (bound_keyword kw) = Some True \<longleftrightarrow> keyword_occurs kw r"
proof -
  have p: "str_lower (''%'' @ kw @ ''%'') = ''%'' @ kw @ ''%''"
    using assms(2) by (simp add: str_lower_def)
  have s: "holds co r (BLike c (JStr (''%'' @ kw @ ''%''))) = Some True
            \<longleftrightarrow> (\<exists>a. column_value r c = Some a \<and> is_substring kw (str_lower a))" for c
    using like_match_contains[OF assms(1)] p
    by (auto simp: param_text_def split: option.splits)
  show ?thesis
    unfolding bound_keyword_def holds.simps(4) foldr_or3_True keyword_occurs_def
    using s[of MetaStyle] s[of MetaTags] by auto
qed

lemma passes_bound_keywords:
  assumes "set kws \<subseteq> KEYWORD_WHITELIST" "kws \<noteq> []"
  shows "passes co (bound_keywords kws) r \<longleftrightarrow> (\<exists>kw\<in>set kws. keyword_occurs kw r)"
proof -
  have "holds co r (BAny (map bound_keyword kws)) = Some True
          \<longleftrightarrow> (\<exists>kw\<in>set kws. holds co r (bound_keyword kw) = Some True)"
    unfolding holds.simps(4) foldr_or3_True by (auto simp: image_iff) (metis)
  also have "\<dots> \<longleftrightarrow> (\<exists>kw\<in>set kws. keyword_occurs kw r)"
    using assms(1) whitelist_plain_lower holds_bound_keyword by (metis subsetD)
  finally show ?thesis using assms(2) by (simp add: passes_def bound_keywords_def)
qed


subsection \<open>The rows returned\<close>

lemma passes_append: "passes co (a @ b) r \<longleftrightarrow> passes co a r \<and> passes co b r"
  by (simp add: passes_def)

lemma set_order_rows: "set (order_rows col key distf rows) = set rows"
  by (cases key) (simp_all add: order_rows_def)

lemma expected_rows_mem:
  assumes "row \<in> set (expected_rows db bs key distf)"
  shows "\<exists>r\<in>set (db_airports db). row = project Airports distf r \<and> passes (db_coerce db) bs r"
proof -
  from assms obtain r
    where r: "r \<in> set (take 1000 (order_rows ImageUrl key distf
                (filter (passes (db_coerce db) bs) (db_airports db))))"
      and p: "row = project Airports distf r"
    by (auto simp: expected_rows_def)
  from r have "r \<in> set (order_rows ImageUrl key distf
                (filter (passes (db_coerce db) bs) (db_airports db)))"
    by (rule in_set_takeD)
  then have "r \<in> set (db_airports db)" "passes (db_coerce db) bs r"
    by (simp_all add: set_order_rows)
  with p show ?thesis by blast
qed

lemma bind_dist_rest:
  assumes "bind_dist db (if is_region_search q then DistZero else distance_expr st)
             (snd (airports_statement st fstr vec k fl q)) = Some (distf, ps)"
  shows "ps = filter_values fl @ keyword_params (extract_keywords (Some (q_text_of q)))
                @ region_values (detect_region (Some (q_text_of q)))"
  using assms
  by (cases "is_region_search q")
     (auto simp: bind_dist_def airports_statement_params distance_expr_def Let_def
        split: option.splits)

lemma search_rows_expected:
  assumes wf: "where_free st"
    and res: "fst (search_airports_by_text st fstr db vec k fl q) = Inr rows"
  shows "\<exists>distf. rows = expected_rows db
                  (bound_filters fl @ bound_keywords (extract_keywords (Some (q_text_of q)))
                     @ bound_region (detect_region (Some (q_text_of q))))
                  (if is_region_search q then ByName else ByDistance) distf"
proof -
  let ?sql = "fst (airports_statement st fstr vec k fl q)"
  let ?ps = "snd (airports_statement st fstr vec k fl q)"
  let ?d = "if is_region_search q then DistZero else distance_expr st"
  have s: "?sql = Select Airports ?d # tl ?sql"
    using airports_statement_head[of st fstr vec k fl q] by (cases ?sql) auto
  from res have ex: "execute db (Select Airports ?d # tl ?sql) ?ps = Inr rows"
    using s by (simp add: search_airports_fst)
  then have re: "db_reachable db"
    by (auto simp: execute_def split: if_splits)
  from ex obtain distf ps where bd: "bind_dist db ?d ?ps = Some (distf, ps)"
    by (auto simp: execute_def airports_statement_parse[OF wf] split: if_splits option.splits)
  from bind_dist_rest[OF bd] bd
  have "bind_dist db ?d ?ps = Some (distf, filter_values fl
          @ keyword_params (extract_keywords (Some (q_text_of q)))
          @ region_values (detect_region (Some (q_text_of q))))"
    by simp
  from execute_airports_statement[OF wf re this] res
  show ?thesis by (auto simp: search_airports_fst)
qed


lemma extract_keywords_whitelist: "set (extract_keywords q) \<subseteq> KEYWORD_WHITELIST"
  by (auto simp: extract_keywords_def Let_def)

subsection \<open>Facts about the example data\<close>

lemma keywords_modern_glass:
  "analysed_keywords (Some ''modern glass halls'') = [''glass'', ''modern'']"
  by code_simp

lemma not_region_modern_glass: "\<not> is_region_search (Some ''modern glass halls'')"
  by code_simp

lemma distance_expr_small: "distance_expr small_settings = DistCall ''VEC_DISTANCE_COSINE''"
  by code_simp

lemma demo_distance_fn:
  "db_distance_fns demo_storage ''VEC_DISTANCE_COSINE'' = Some (\<lambda>p r. real_of_int (row_id r))"
  by (simp add: demo_storage_def)

lemma demo_reachable: "db_reachable demo_storage"
  by (simp add: demo_storage_def)


subsection \<open>The region group\<close>

lemma region_asia: "analysed_region (Some ''airports in asia'') = Some (snd (REGION_KEYWORDS ! 0))"
  by code_simp

lemma keywords_asia: "analysed_keywords (Some ''airports in asia'') = []"
  by code_simp

lemma passes_region_exact:
  assumes "\<forall>c\<in>set cs. plain c \<and> str_lower c = c"
  shows "passes co (bound_region (Some cs)) r
           \<longleftrightarrow> (\<exists>a. row_country r = Some a \<and> str_lower a \<in> set cs)"
proof -
  have "holds co r (BLike Country (JStr c)) = Some True
          \<longleftrightarrow> (\<exists>a. row_country r = Some a \<and> str_lower a = c)" if "c \<in> set cs" for c
    using assms that like_match_plain[of c]
    by (auto simp: param_text_def split: option.splits)
  then have "(\<exists>c\<in>set cs. holds co r (BLike Country (JStr c)) = Some True)
          \<longleftrightarrow> (\<exists>a. row_country r = Some a \<and> str_lower a \<in> set cs)"
    by blast
  moreover have "holds co r (BAny (map (\<lambda>c. BLike Country (JStr c)) cs)) = Some True
          \<longleftrightarrow> (\<exists>c\<in>set cs. holds co r (BLike Country (JStr c)) = Some True)"
    unfolding holds.simps(4) foldr_or3_True by (auto simp: image_iff) (metis)
  ultimately show ?thesis by (simp add: passes_def bound_region_def)
qed

lemma asia_tokens_plain: "\<forall>c\<in>set (snd (REGION_KEYWORDS ! 0)). plain c \<and> str_lower c = c"
  by (simp add: REGION_KEYWORDS_def plain_def str_lower_def lower_char_def
        ascii_uppercase_def ascii_lowercase_def)

lemma demo_passes_asia:
  "filter (passes (db_coerce demo_storage) (bound_region (Some (snd (REGION_KEYWORDS ! 0)))))
      (db_airports demo_storage)
   = [demo_row 2 ''Indira Gandhi'' (Some ''India'') (Some ''http://img/del.jpg'') None
            (Some ''[art, Bamboo]'')]"
  unfolding demo_storage_def
  by (simp add: passes_region_exact[OF asia_tokens_plain] demo_row_def)
     (simp add: REGION_KEYWORDS_def str_lower_def lower_char_def
        ascii_uppercase_def ascii_lowercase_def)


subsection \<open>Rounding to doubles\<close>

lemma u_bounds: "0 < unit_roundoff" "unit_roundoff \<le> 1 / 100"
proof -
  show "0 < unit_roundoff" by (simp add: unit_roundoff_def)
  have "(2::real) ^ 7 \<le> 2 ^ 53" by (rule power_increasing) simp_all
  then have "(100::real) \<le> 2 ^ 53" by simp
  then show "unit_roundoff \<le> 1 / 100"
    unfolding unit_roundoff_def by (simp add: field_simps)
qed

lemma sn_bounds: "0 < smallest_normal" "smallest_normal \<le> unit_roundoff / 8"
  "smallest_normal \<le> 1 / (2 * 10 ^ 9)"
proof -
  show "0 < smallest_normal" by (simp add: smallest_normal_def)
  have "(2::real) ^ 56 \<le> 2 ^ 1022" by (rule power_increasing) simp_all
  then have "1 / (2::real) ^ 1022 \<le> 1 / 2 ^ 56"
    by (intro divide_left_mono) simp_all
  also have "(1::real) / 2 ^ 56 = (1 / 2 ^ 53) / 8" by simp
  finally show "smallest_normal \<le> unit_roundoff / 8"
    by (simp only: smallest_normal_def unit_roundoff_def)
  have "(2 * 10 ^ 9 :: real) \<le> 2 ^ 31" by simp
  also have "(2::real) ^ 31 \<le> 2 ^ 1022" by (rule power_increasing) simp_all
  finally have "(2 * 10 ^ 9 :: real) \<le> 2 ^ 1022" .
  then have "1 / (2::real) ^ 1022 \<le> 1 / (2 * 10 ^ 9)"
    by (intro divide_left_mono) simp_all
  then show "smallest_normal \<le> 1 / (2 * 10 ^ 9)"
    by (simp only: smallest_normal_def)
qed

lemma two_le_huge: "(2::real) \<le> 2 ^ 1023"
proof -
  have "(2::real) ^ 1 \<le> 2 ^ 1023" by (rule power_increasing) simp_all
  then show ?thesis by simp
qed


lemma rnd_nonneg: "double_rounding rnd \<Longrightarrow> 0 \<le> x \<Longrightarrow> 0 \<le> rnd x"
  unfolding double_rounding_def by metis

lemma rnd_mono: "double_rounding rnd \<Longrightarrow> x \<le> y \<Longrightarrow> rnd x \<le> rnd y"
  unfolding double_rounding_def by blast

lemma rnd_normal:
  "double_rounding rnd \<Longrightarrow> smallest_normal \<le> x \<Longrightarrow> x \<le> 2 \<Longrightarrow>
     \<bar>rnd x - x\<bar> \<le> unit_roundoff * x"
proof -
  assume d: "double_rounding rnd" and l: "smallest_normal \<le> x" and h: "x \<le> 2"
  from l sn_bounds(1) have p: "0 < x" by linarith
  then have "smallest_normal \<le> \<bar>x\<bar> \<and> \<bar>x\<bar> \<le> 2 ^ 1023"
    using l h two_le_huge by simp
  with d have "\<bar>rnd x - x\<bar> \<le> unit_roundoff * \<bar>x\<bar>"
    unfolding double_rounding_def by blast
  with p show ?thesis by simp
qed

text \<open>In the whole range used here the error of a rounding is at most the relative
  error plus a quarter of a unit roundoff of absolute error.\<close>

lemma rnd_error:
  assumes d: "double_rounding rnd" and x: "0 \<le> x" "x \<le> 2"
  shows "\<bar>rnd x - x\<bar> \<le> unit_roundoff * x + unit_roundoff / 4"
proof (cases "smallest_normal \<le> x")
  case True
  from rnd_normal[OF d True x(2)] u_bounds(1) show ?thesis by linarith
next
  case False
  then have lt: "x < smallest_normal" by simp
  have "rnd x \<le> rnd smallest_normal" using rnd_mono[OF d] lt by simp
  moreover have "\<bar>rnd smallest_normal - smallest_normal\<bar> \<le> unit_roundoff * smallest_normal"
    using rnd_normal[OF d, of smallest_normal] sn_bounds u_bounds by simp
  ultimately have up: "rnd x \<le> smallest_normal + unit_roundoff * smallest_normal" by linarith
  have "unit_roundoff * smallest_normal \<le> 1 * smallest_normal"
    using u_bounds sn_bounds(1) by (intro mult_right_mono) simp_all
  with up have up2: "rnd x \<le> 2 * smallest_normal" by simp
  have lo: "0 \<le> rnd x" using rnd_nonneg[OF d x(1)] .
  have "\<bar>rnd x - x\<bar> \<le> 2 * smallest_normal" using up2 lo x(1) lt by linarith
  also have "\<dots> \<le> unit_roundoff / 4" using sn_bounds(2) by simp
  finally have "\<bar>rnd x - x\<bar> \<le> unit_roundoff / 4" .
  moreover have "0 \<le> unit_roundoff * x" using u_bounds(1) x(1) by simp
  ultimately show ?thesis by linarith
qed

text \<open>The arithmetic of the two cases, with the roundings replaced by their bounds:
  \<open>t\<close> is the exact sum of the clamped weights, \<open>d\<close> the divisor, \<open>S\<close> the sum of the two
  rounded quotients.\<close>

lemma sum_near_one:
  fixes u t d S :: real
  assumes u: "0 < u" "u \<le> 1 / 100" and t: "0 < t"
    and d: "(1 - u) * t \<le> d" "d \<le> (1 + u) * t"
    and S: "\<bar>S - t / d\<bar> \<le> u * (t / d) + u / 2"
  shows "\<bar>S - 1\<bar> \<le> 3 * u"
proof -
  have dpos: "0 < d"
  proof -
    have "0 < (1 - u) * t" using u t by simp
    with d(1) show ?thesis by linarith
  qed
  define X where "X = t / d"
  have Xd: "X * d = t" using dpos by (simp add: X_def)
  have Xpos: "0 \<le> X" using t dpos by (simp add: X_def)
  have up: "(1 - u) * X \<le> 1"
  proof -
    have "(1 - u) * X = ((1 - u) * t) / d" by (simp add: X_def)
    also have "\<dots> \<le> d / d" using d(1) dpos by (intro divide_right_mono) simp_all
    also have "\<dots> = 1" using dpos by simp
    finally show ?thesis .
  qed
  have lo: "1 \<le> (1 + u) * X"
  proof -
    have "1 = d / d" using dpos by simp
    also have "\<dots> \<le> ((1 + u) * t) / d" using d(2) dpos by (intro divide_right_mono) simp_all
    also have "\<dots> = (1 + u) * X" by (simp add: X_def)
    finally show ?thesis .
  qed
  have "(99 / 100) * X \<le> (1 - u) * X"
    using u Xpos by (intro mult_right_mono) simp_all
  with up have X2: "X \<le> 100 / 99" by linarith
  have "u * X \<le> u * (100 / 99)" using X2 u by (intro mult_left_mono) simp_all
  then have p: "u * X \<le> (100 / 99) * u" by simp
  have up': "X - u * X \<le> 1" using up by (simp add: algebra_simps)
  have lo': "1 \<le> X + u * X" using lo by (simp add: algebra_simps)
  from S have "\<bar>S - X\<bar> \<le> u * X + u / 2" by (simp add: X_def)
  with up' lo' p u show ?thesis by linarith
qed

lemma sum_below_floor:
  fixes u t d S c :: real
  assumes u: "0 < u" "u \<le> 1 / 100" and c: "0 < c" and t: "0 \<le> t" "t \<le> c / 2"
    and d: "(1 - u) * c \<le> d"
    and S: "S \<le> t / d + u * (t / d) + u / 2"
  shows "S \<le> 3 / 5"
proof -
  have "(99 / 100) * c \<le> (1 - u) * c" using u c by (intro mult_right_mono) simp_all
  with d have dc: "(99 / 100) * c \<le> d" by linarith
  with c have dpos: "0 < d" by linarith
  define X where "X = t / d"
  have Xpos: "0 \<le> X" using t dpos by (simp add: X_def)
  have "X \<le> (c / 2) / d" unfolding X_def using t dpos by (intro divide_right_mono) simp_all
  also have "\<dots> \<le> (c / 2) / ((99 / 100) * c)"
    using dc c by (intro divide_left_mono) simp_all
  also have "\<dots> = 50 / 99" using c by simp
  finally have X2: "X \<le> 50 / 99" .
  have "u * X \<le> (1 / 100) * X" using u Xpos by (intro mult_right_mono) simp_all
  with X2 have p: "u * X \<le> 1 / 198" by linarith
  from S have "S \<le> X + u * X + u / 2" by (simp add: X_def)
  with X2 p u show ?thesis by linarith
qed

lemma abs_rel_bounds:
  fixes r x u :: real
  assumes "\<bar>r - x\<bar> \<le> u * x"
  shows "(1 - u) * x \<le> r" "r \<le> (1 + u) * x"
proof -
  from assms have "x - u * x \<le> r" "r \<le> x + u * x" by linarith+
  then show "(1 - u) * x \<le> r" "r \<le> (1 + u) * x" by (simp_all add: algebra_simps)
qed

lemma identity_rounding: "double_rounding (\<lambda>x. x)"
  using u_bounds(1) by (simp add: double_rounding_def)


subsection \<open>Mode selection\<close>

text \<open>
  Claim C1. For every query text the statement is in region-only mode if and only if a
  region is detected in the analysed text and no keyword is extracted from it; in every
  other case it is in vector-similarity mode. In particular a non-empty keyword list
  gives vector-similarity mode even when a region is detected. The ordering key follows
  the mode.
\<close>

theorem mode_selection:
  "plan_mode (fst (airports_statement st fstr vec k fl q)) =
      Some (if detect_region (Some (q_text_of q)) \<noteq> None
               \<and> extract_keywords (Some (q_text_of q)) = []
            then RegionOnly else VectorSimilarity)
   \<and> (is_region_search q \<longleftrightarrow>
        detect_region (Some (q_text_of q)) \<noteq> None \<and> extract_keywords (Some (q_text_of q)) = [])
   \<and> last (fst (airports_statement st fstr vec k fl q)) =
        OrderLimit 8 ImageUrl (if is_region_search q then ByName else ByDistance) 1000
   \<and> (extract_keywords (Some (q_text_of q)) \<noteq> [] \<longrightarrow>
        plan_mode (fst (airports_statement st fstr vec k fl q)) = Some VectorSimilarity)"
proof -
  have m: "plan_mode (fst (airports_statement st fstr vec k fl q)) =
      Some (if is_region_search q then RegionOnly else VectorSimilarity)"
    by (simp add: airports_statement_eq Let_def plan_mode_def distance_expr_def)
  have l: "last (fst (airports_statement st fstr vec k fl q)) =
        OrderLimit 8 ImageUrl (if is_region_search q then ByName else ByDistance) 1000"
    by (simp add: airports_statement_eq Let_def)
  from m l show ?thesis by (simp add: is_region_search_eq)
qed

theorem mode_selection_witness:
  "plan_mode (fst (airports_statement default_settings (float_str demo_services) [Fin 1] 9999 None
        (Some ''Airports in Asia''))) = Some RegionOnly
   \<and> plan_mode (fst (airports_statement default_settings (float_str demo_services) [Fin 1] 9999 None
        (Some ''Bamboo airports in Asia''))) = Some VectorSimilarity
   \<and> plan_mode (fst (airports_statement default_settings (float_str demo_services) [Fin 1] 9999 None
        (Some ''bamboo halls''))) = Some VectorSimilarity
   \<and> plan_mode (fst (airports_statement default_settings (float_str demo_services) [Fin 1] 9999 None
        (Some ''quiet terminals''))) = Some VectorSimilarity"
proof -
  have r1: "detect_region (Some (q_text_of (Some ''Airports in Asia'')))
              = Some (snd (REGION_KEYWORDS ! 0))"
    and k1: "extract_keywords (Some (q_text_of (Some ''Airports in Asia''))) = []"
    by code_simp+
  have k2: "extract_keywords (Some (q_text_of (Some ''Bamboo airports in Asia''))) = [''bamboo'']"
    by code_simp
  have k3: "extract_keywords (Some (q_text_of (Some ''bamboo halls''))) = [''bamboo'']"
    by code_simp
  have r4: "detect_region (Some (q_text_of (Some ''quiet terminals''))) = None"
    by code_simp
  show ?thesis
    using mode_selection[of default_settings "float_str demo_services" "[Fin 1]" 9999 None
            "Some ''Airports in Asia''"]
      mode_selection[of default_settings "float_str demo_services" "[Fin 1]" 9999 None
            "Some ''Bamboo airports in Asia''"]
      mode_selection[of default_settings "float_str demo_services" "[Fin 1]" 9999 None
            "Some ''bamboo halls''"]
      mode_selection[of default_settings "float_str demo_services" "[Fin 1]" 9999 None
            "Some ''quiet terminals''"]
    unfolding r1 k1 k2 k3 r4 by simp
qed

subsection \<open>The result limit\<close>

text \<open>
  Claim C2. The statement always ends with the limit 1000, whatever count \<open>k\<close> the caller
  asks for: the statement does not depend on \<open>k\<close> at all. Whenever the storage layer
  returns rows for it, there are at most 1000 of them, and every endpoint that answers
  with a result has at most 1000 hits. A request with \<open>k = 9999\<close> passes the request
  schema (which admits counts up to 10000) and still gets the limit 1000.
\<close>

theorem result_limit_1000:
  "last (fst (airports_statement st fstr vec k fl q))
      = OrderLimit 8 ImageUrl (if is_region_search q then ByName else ByDistance) 1000
   \<and> airports_statement st fstr vec k fl q = airports_statement st fstr vec k' fl q
   \<and> (where_free st \<longrightarrow>
        statement_limit (fst (airports_statement st fstr vec k fl q)) = Some 1000)
   \<and> (fst (search_airports_by_text st fstr db vec k fl q) = Inr rows \<longrightarrow> length rows \<le> 1000)
   \<and> (search_text st sv db body = (Inr res, calls) \<longrightarrow>
        rr_count res \<le> 1000 \<and> length (rr_hits res) \<le> 1000)
   \<and> (search_hybrid st sv db hb = (Inr res, calls) \<longrightarrow>
        rr_count res \<le> 1000 \<and> length (rr_hits res) \<le> 1000)
   \<and> (search_image st sv db ct data k has_logo = (Inr res, calls) \<longrightarrow>
        rr_count res \<le> 1000 \<and> length (rr_hits res) \<le> 1000)"
proof (intro conjI impI)
  show "last (fst (airports_statement st fstr vec k fl q))
      = OrderLimit 8 ImageUrl (if is_region_search q then ByName else ByDistance) 1000"
    by (simp add: airports_statement_eq Let_def)
  show "airports_statement st fstr vec k fl q = airports_statement st fstr vec k' fl q"
    by (simp add: airports_statement_eq)
next
  assume wf: "where_free st"
  let ?sql = "fst (airports_statement st fstr vec k fl q)"
  have s: "?sql = Select Airports (if is_region_search q then DistZero else distance_expr st) # tl ?sql"
    using airports_statement_head[of st fstr vec k fl q] by (cases ?sql) auto
  show "statement_limit ?sql = Some 1000"
    by (subst s) (simp add: statement_limit_def airports_statement_parse[OF wf])
next
  assume "fst (search_airports_by_text st fstr db vec k fl q) = Inr rows"
  then show "length rows \<le> 1000" by (rule search_airports_limit)
next
  assume "search_text st sv db body = (Inr res, calls)"
  from search_text_limit[OF this]
  show "rr_count res \<le> 1000" "length (rr_hits res) \<le> 1000" by simp_all
next
  assume "search_hybrid st sv db hb = (Inr res, calls)"
  from search_hybrid_limit[OF this]
  show "rr_count res \<le> 1000" "length (rr_hits res) \<le> 1000" by simp_all
next
  assume "search_image st sv db ct data k has_logo = (Inr res, calls)"
  from search_image_limit[OF this]
  show "rr_count res \<le> 1000" "length (rr_hits res) \<le> 1000" by simp_all
qed

theorem result_limit_1000_witness:
  "valid_text_query \<lparr> body_query = ''airports in asia'', body_k = 9999, body_filters = None \<rparr>
   \<and> statement_limit (fst (airports_statement small_settings (float_str demo_services)
          [Fin 1, Fin 2] 9999 None (Some ''airports in asia''))) = Some 1000
   \<and> (\<exists>res calls.
         search_text small_settings demo_services demo_storage
           \<lparr> body_query = ''airports in asia'', body_k = 9999, body_filters = None \<rparr>
           = (Inr res, calls)
       \<and> rr_count res \<le> 1000 \<and> length (rr_hits res) \<le> 1000)"
proof -
  let ?body = "\<lparr> body_query = ''airports in asia'', body_k = 9999, body_filters = None \<rparr>"
  let ?raw = "\<lparr> nd_shape = [1, 2], nd_data = [Fin 1, Fin 2] \<rparr>"
  have v: "valid_text_query ?body" by (simp add: valid_text_query_def)
  have l: "statement_limit (fst (airports_statement small_settings (float_str demo_services)
          [Fin 1, Fin 2] 9999 None (Some ''airports in asia''))) = Some 1000"
    using result_limit_1000[of small_settings "float_str demo_services" "[Fin 1, Fin 2]" 9999
            None "Some ''airports in asia''"] where_free_small
    by blast
  have e: "embed_text demo_services (body_query ?body) = Some ?raw"
    by (simp add: demo_services_def)
  have d: "int (length (nd_data ?raw)) = EMBEDDING_DIM small_settings"
    by (simp add: small_settings_def)
  have r: "db_reachable demo_storage" by (simp add: demo_storage_def)
  from execute_airports_statement[OF where_free_small r
         bind_dist_region[OF region_search_asia], of "float_str demo_services" "[Fin 1, Fin 2]" 9999 None]
  obtain rows where x: "fst (search_airports_by_text small_settings (float_str demo_services)
        demo_storage (nd_data ?raw) (body_k ?body) (body_filters ?body) (Some (body_query ?body)))
        = Inr rows"
    by (simp add: search_airports_fst)
  from search_text_ok[OF e d x] obtain res calls where
    s: "search_text small_settings demo_services demo_storage ?body = (Inr res, calls)"
    by blast
  from result_limit_1000[where st = small_settings and sv = demo_services and db = demo_storage
        and body = ?body and res = res and calls = calls] s
  have "rr_count res \<le> 1000 \<and> length (rr_hits res) \<le> 1000" by blast
  with v l s show ?thesis by blast
qed


subsection \<open>The region filter\<close>

text \<open>
  Claim C3. The region group is a conjunct of the statement, but it binds each country
  token as it is, with no \<^verbatim>\<open>%\<close> around it, so \<^verbatim>\<open>LOWER(country) LIKE LOWER(?)\<close> holds
  only for a country equal to a token (up to case), not for one that contains it. For the
  query \<^verbatim>\<open>airports in asia\<close> the Asia list is detected and contains the token
  \<^verbatim>\<open>korea\<close>; the table row whose country is \<^verbatim>\<open>South Korea\<close> contains that token and
  is not returned, while the row whose country is \<^verbatim>\<open>India\<close> is.
\<close>

theorem region_filter_is_exact_match:
  "analysed_region (Some ''airports in asia'') = Some (snd (REGION_KEYWORDS ! 0))
   \<and> ''korea'' \<in> set (snd (REGION_KEYWORDS ! 0))
   \<and> str_in ''korea'' (str_lower ''South Korea'')
   \<and> row_country (db_airports demo_storage ! 0) = Some ''South Korea''
   \<and> fst (search_airports_by_text small_settings (float_str demo_services) demo_storage
             [Fin 1, Fin 2] 5 None (Some ''airports in asia''))
       = Inr [project Airports (\<lambda>r. 0) (db_airports demo_storage ! 1)]"
proof -
  have a: "''korea'' \<in> set (snd (REGION_KEYWORDS ! 0))"
    by (simp add: REGION_KEYWORDS_def)
  have b: "str_in ''korea'' (str_lower ''South Korea'')"
    by code_simp
  have c: "row_country (db_airports demo_storage ! 0) = Some ''South Korea''"
    by (simp add: demo_storage_def demo_row_def)
  have "fst (search_airports_by_text small_settings (float_str demo_services) demo_storage
             [Fin 1, Fin 2] 5 None (Some ''airports in asia''))
        = Inr (expected_rows demo_storage
                 (bound_region (Some (snd (REGION_KEYWORDS ! 0)))) ByName (\<lambda>r. 0))"
    using execute_airports_statement[OF where_free_small demo_reachable
         bind_dist_region[OF region_search_asia], of "float_str demo_services" "[Fin 1, Fin 2]" 5 None]
    by (simp add: search_airports_fst region_asia keywords_asia region_search_asia
          bound_filters_def bound_keywords_def)
  also have "expected_rows demo_storage
                 (bound_region (Some (snd (REGION_KEYWORDS ! 0)))) ByName (\<lambda>r. 0)
        = [project Airports (\<lambda>r. 0) (db_airports demo_storage ! 1)]"
    unfolding expected_rows_def demo_passes_asia
    by (simp add: order_rows_def demo_storage_def)
  finally show ?thesis using a b c region_asia by simp
qed


subsection \<open>Weights of the hybrid blend\<close>

text \<open>
  Claim C4. With the additions and divisions rounded to doubles, the normalized weights
  are never negative, and for weights in \<open>[0, 1]\<close> whose sum is at least the floor
  \<open>10\<^sup>-\<^sup>9\<close> they sum to 1 within three unit roundoffs (one and a half machine epsilons).
  For weights whose sum is at most half the floor, such as \<open>wt = 10\<^sup>-\<^sup>1\<^sup>0\<close>, \<open>wi = 0\<close>, the
  divisor is the floor and the normalized weights sum to at most \<open>3/5\<close>: there the code
  does not do what the claim, and the docstring of \<^verbatim>\<open>search_hybrid\<close> (\<^verbatim>\<open>Weights are
  normalized so they sum to 1\<close>), say for every pair with a positive sum. The sum meant is
  the exact sum of the two doubles.
\<close>

theorem normalize_weights_rounded:
  "double_rounding rnd \<longrightarrow>
     0 \<le> fst (normalize_weights rnd wt wi) \<and> 0 \<le> snd (normalize_weights rnd wt wi)
     \<and> (0 \<le> wt \<and> wt \<le> 1 \<and> 0 \<le> wi \<and> wi \<le> 1 \<and> 1 / 10 ^ 9 \<le> wt + wi \<longrightarrow>
          \<bar>fst (normalize_weights rnd wt wi) + snd (normalize_weights rnd wt wi) - 1\<bar>
            \<le> 3 * unit_roundoff)
     \<and> (0 \<le> wt \<and> 0 \<le> wi \<and> wt + wi \<le> 1 / (2 * 10 ^ 9) \<longrightarrow>
          fst (normalize_weights rnd wt wi) + snd (normalize_weights rnd wt wi) \<le> 3 / 5)"
proof (intro impI)
  assume r: "double_rounding rnd"
  define a where "a = max 0 (min 1 wt)"
  define b where "b = max 0 (min 1 wi)"
  define c :: real where "c = 1 / 10 ^ 9"
  define d where "d = max (rnd (a + b)) (rnd c)"
  define u where "u = unit_roundoff"
  have n: "normalize_weights rnd wt wi = (rnd (a / d), rnd (b / d))"
    by (simp add: normalize_weights_def Let_def a_def b_def c_def d_def)
  have ab: "0 \<le> a" "a \<le> 1" "0 \<le> b" "b \<le> 1"
    unfolding a_def b_def by simp_all
  have u: "0 < u" "u \<le> 1 / 100" using u_bounds by (simp_all add: u_def)
  have cpos: "0 < c" by (simp add: c_def)
  have csn: "smallest_normal \<le> c" "smallest_normal \<le> c / 2"
    using sn_bounds(3) by (simp_all add: c_def)
  have c2: "c \<le> 2" by (simp add: c_def)
  have F: "\<bar>rnd c - c\<bar> \<le> u * c"
    unfolding u_def using rnd_normal[OF r csn(1) c2] .
  have Fpos: "0 \<le> rnd c" using rnd_nonneg[OF r] cpos by simp
  have dge: "(1 - u) * c \<le> d"
  proof -
    have "(1 - u) * c \<le> rnd c" using abs_rel_bounds(1)[OF F] .
    also have "\<dots> \<le> d" by (simp add: d_def)
    finally show ?thesis .
  qed
  have dpos: "0 < d"
  proof -
    have "0 < (1 - u) * c" using u cpos by simp
    with dge show ?thesis by linarith
  qed
  have q: "0 \<le> a / d" "0 \<le> b / d" using ab dpos by simp_all
  have nonneg: "0 \<le> rnd (a / d)" "0 \<le> rnd (b / d)"
    using rnd_nonneg[OF r] q by simp_all
  have above: "\<bar>rnd (a / d) + rnd (b / d) - 1\<bar> \<le> 3 * u"
    if h: "0 \<le> wt \<and> wt \<le> 1 \<and> 0 \<le> wi \<and> wi \<le> 1 \<and> 1 / 10 ^ 9 \<le> wt + wi"
  proof -
    from h have e: "a = wt" "b = wi" by (simp_all add: a_def b_def)
    with h have t: "c \<le> a + b" by (simp add: c_def)
    then have tpos: "0 < a + b" using cpos by linarith
    have t2: "a + b \<le> 2" using ab by linarith
    have tsn: "smallest_normal \<le> a + b" using csn(1) t by linarith
    have s: "\<bar>rnd (a + b) - (a + b)\<bar> \<le> u * (a + b)"
      unfolding u_def using rnd_normal[OF r tsn t2] .
    have d1: "(1 - u) * (a + b) \<le> d"
    proof -
      have "(1 - u) * (a + b) \<le> rnd (a + b)" using abs_rel_bounds(1)[OF s] .
      also have "\<dots> \<le> d" by (simp add: d_def)
      finally show ?thesis .
    qed
    have d2: "d \<le> (1 + u) * (a + b)"
    proof -
      have 1: "rnd (a + b) \<le> (1 + u) * (a + b)" using abs_rel_bounds(2)[OF s] .
      have "rnd c \<le> (1 + u) * c" using abs_rel_bounds(2)[OF F] .
      also have "\<dots> \<le> (1 + u) * (a + b)" using t u by (intro mult_left_mono) simp_all
      finally have 2: "rnd c \<le> (1 + u) * (a + b)" .
      from 1 2 show ?thesis by (simp add: d_def)
    qed
    have X: "a / d + b / d = (a + b) / d" by (simp add: add_divide_distrib)
    have Xle: "(a + b) / d \<le> 2"
    proof -
      have "(99 / 100) * (a + b) \<le> (1 - u) * (a + b)"
        using u tpos by (intro mult_right_mono) simp_all
      with d1 have "(99 / 100) * (a + b) \<le> d" by linarith
      then have "a + b \<le> 2 * d" using tpos by argo
      then show ?thesis using dpos by (simp add: field_simps)
    qed
    have x2: "a / d \<le> 2" "b / d \<le> 2" using X Xle q by linarith+
    have ea: "\<bar>rnd (a / d) - a / d\<bar> \<le> u * (a / d) + u / 4"
      unfolding u_def using rnd_error[OF r q(1) x2(1)] .
    have eb: "\<bar>rnd (b / d) - b / d\<bar> \<le> u * (b / d) + u / 4"
      unfolding u_def using rnd_error[OF r q(2) x2(2)] .
    have "u * ((a + b) / d) = u * (a / d) + u * (b / d)"
      by (simp add: add_divide_distrib algebra_simps)
    with ea eb X
    have S: "\<bar>(rnd (a / d) + rnd (b / d)) - (a + b) / d\<bar> \<le> u * ((a + b) / d) + u / 2"
      by linarith
    from sum_near_one[OF u tpos d1 d2 S] show ?thesis by simp
  qed
  have below: "rnd (a / d) + rnd (b / d) \<le> 3 / 5"
    if h: "0 \<le> wt \<and> 0 \<le> wi \<and> wt + wi \<le> 1 / (2 * 10 ^ 9)"
  proof -
    have "(1::real) / (2 * 10 ^ 9) \<le> 1" by simp
    with h have "wt \<le> 1" "wi \<le> 1" by linarith+
    with h have e: "a = wt" "b = wi" by (simp_all add: a_def b_def)
    with h have t: "a + b \<le> c / 2" by (simp add: c_def)
    have t0: "0 \<le> a + b" using ab by simp
    have X: "a / d + b / d = (a + b) / d" by (simp add: add_divide_distrib)
    have Xle: "(a + b) / d \<le> 2"
    proof -
      have "(99 / 100) * c \<le> (1 - u) * c" using u cpos by (intro mult_right_mono) simp_all
      with dge have "(99 / 100) * c \<le> d" by linarith
      with t cpos have "a + b \<le> 2 * d" by argo
      then show ?thesis using dpos by (simp add: field_simps)
    qed
    have x2: "a / d \<le> 2" "b / d \<le> 2" using X Xle q by linarith+
    have ea: "\<bar>rnd (a / d) - a / d\<bar> \<le> u * (a / d) + u / 4"
      unfolding u_def using rnd_error[OF r q(1) x2(1)] .
    have eb: "\<bar>rnd (b / d) - b / d\<bar> \<le> u * (b / d) + u / 4"
      unfolding u_def using rnd_error[OF r q(2) x2(2)] .
    have "u * ((a + b) / d) = u * (a / d) + u * (b / d)"
      by (simp add: add_divide_distrib algebra_simps)
    with ea eb X
    have S: "rnd (a / d) + rnd (b / d) \<le> (a + b) / d + u * ((a + b) / d) + u / 2"
      by linarith
    from sum_below_floor[OF u cpos t0 t dge S] show ?thesis .
  qed
  from nonneg above below show
    "0 \<le> fst (normalize_weights rnd wt wi) \<and> 0 \<le> snd (normalize_weights rnd wt wi)
     \<and> (0 \<le> wt \<and> wt \<le> 1 \<and> 0 \<le> wi \<and> wi \<le> 1 \<and> 1 / 10 ^ 9 \<le> wt + wi \<longrightarrow>
          \<bar>fst (normalize_weights rnd wt wi) + snd (normalize_weights rnd wt wi) - 1\<bar>
            \<le> 3 * unit_roundoff)
     \<and> (0 \<le> wt \<and> 0 \<le> wi \<and> wt + wi \<le> 1 / (2 * 10 ^ 9) \<longrightarrow>
          fst (normalize_weights rnd wt wi) + snd (normalize_weights rnd wt wi) \<le> 3 / 5)"
    unfolding n u_def by simp
qed

theorem normalize_weights_rounded_witness:
  "normalize_weights (\<lambda>x. x) (1 / 10 ^ 10) 0 = (1 / 10, 0)
   \<and> fst (normalize_weights (\<lambda>x. x) (1 / 10 ^ 10) 0)
       + snd (normalize_weights (\<lambda>x. x) (1 / 10 ^ 10) 0) \<le> 3 / 5
   \<and> \<bar>fst (normalize_weights (\<lambda>x. x) (6 / 10) (4 / 10))
       + snd (normalize_weights (\<lambda>x. x) (6 / 10) (4 / 10)) - 1\<bar> \<le> 3 * unit_roundoff
   \<and> 0 \<le> fst (normalize_weights (\<lambda>x. x) (6 / 10) (4 / 10))"
proof -
  have e: "normalize_weights (\<lambda>x. x) (1 / 10 ^ 10) 0 = (1 / 10, 0)"
    by (simp add: normalize_weights_def Let_def)
  have h1: "(0::real) \<le> 1 / 10 ^ 10 \<and> (0::real) \<le> 0 \<and> (1::real) / 10 ^ 10 + 0 \<le> 1 / (2 * 10 ^ 9)"
    by simp
  have h2: "(0::real) \<le> 6 / 10 \<and> (6::real) / 10 \<le> 1 \<and> (0::real) \<le> 4 / 10 \<and> (4::real) / 10 \<le> 1
              \<and> (1::real) / 10 ^ 9 \<le> 6 / 10 + 4 / 10"
    by simp
  from normalize_weights_rounded[of "\<lambda>x. x" "1 / 10 ^ 10" 0] identity_rounding h1
  have a: "fst (normalize_weights (\<lambda>x. x) (1 / 10 ^ 10) 0)
       + snd (normalize_weights (\<lambda>x. x) (1 / 10 ^ 10) 0) \<le> 3 / 5"
    by blast
  from normalize_weights_rounded[of "\<lambda>x. x" "6 / 10" "4 / 10"] identity_rounding h2
  have b: "\<bar>fst (normalize_weights (\<lambda>x. x) (6 / 10) (4 / 10))
       + snd (normalize_weights (\<lambda>x. x) (6 / 10) (4 / 10)) - 1\<bar> \<le> 3 * unit_roundoff"
    and c: "0 \<le> fst (normalize_weights (\<lambda>x. x) (6 / 10) (4 / 10))"
    by blast+
  from e a b c show ?thesis by blast
qed

subsection \<open>Keyword extraction\<close>

text \<open>
  Claim C5. For every input text (absent text included), \<open>extract_keywords\<close> returns
  exactly the maximal ASCII-letter runs of the lowercased text that belong to the keyword
  whitelist, as a list that is sorted in the lexicographic order of strings and has no
  duplicates; hence every element is in the whitelist. Absent and empty text give the
  empty list. The function has no state: it is a function of the text alone, so two calls
  on the same text return the same list.
\<close>

theorem extract_keywords_spec:
  "set (extract_keywords q) =
      {t. maximal_letter_run (str_lower (or_empty q)) t} \<inter> KEYWORD_WHITELIST
   \<and> set (extract_keywords q) \<subseteq> KEYWORD_WHITELIST
   \<and> sorted (extract_keywords q) \<and> distinct (extract_keywords q)
   \<and> extract_keywords None = [] \<and> extract_keywords (Some []) = []"
proof -
  have "set (extract_keywords q) =
      {t. maximal_letter_run (str_lower (or_empty q)) t} \<inter> KEYWORD_WHITELIST"
    by (auto simp: extract_keywords_def Let_def findall_letters_set)
  moreover have "sorted (extract_keywords q)" "distinct (extract_keywords q)"
    by (simp_all add: extract_keywords_def Let_def)
  moreover have "extract_keywords None = []" "extract_keywords (Some []) = []"
    by (simp_all add: extract_keywords_def Let_def or_empty_def str_lower_def
          findall_letters_def)
  ultimately show ?thesis by blast
qed

theorem extract_keywords_spec_witness:
  "extract_keywords (Some ''Glass roof, BAMBOO and glass'') = [''bamboo'', ''glass'']
   \<and> maximal_letter_run ''glass roof, bamboo and glass'' ''bamboo''
   \<and> maximal_letter_run ''glass roof, bamboo and glass'' ''glass''"
proof -
  have e: "extract_keywords (Some ''Glass roof, BAMBOO and glass'') = [''bamboo'', ''glass'']"
    by code_simp
  have l: "str_lower (or_empty (Some ''Glass roof, BAMBOO and glass''))
             = ''glass roof, bamboo and glass''"
    by code_simp
  from extract_keywords_spec[of "Some ''Glass roof, BAMBOO and glass''"]
  have "set [''bamboo'', ''glass''] =
          {t. maximal_letter_run ''glass roof, bamboo and glass'' t} \<inter> KEYWORD_WHITELIST"
    unfolding e l by blast
  then have "''bamboo'' \<in> {t. maximal_letter_run ''glass roof, bamboo and glass'' t}"
    and "''glass'' \<in> {t. maximal_letter_run ''glass roof, bamboo and glass'' t}"
    by auto
  with e show ?thesis by simp
qed

subsection \<open>Region detection\<close>

text \<open>
  Claim C6. \<open>detect_region\<close> lowercases the text and goes through the region map in its
  declaration order. It returns the country list of the first region whose name, or one
  of whose country tokens, occurs in the text as a substring: so when tokens of two
  regions occur, the region declared earlier wins. It returns nothing exactly when no
  region matches.
\<close>

theorem detect_region_first_match:
  "(detect_region q = Some cs \<longleftrightarrow>
      (\<exists>i<length REGION_KEYWORDS.
          cs = snd (REGION_KEYWORDS ! i)
        \<and> region_matches (str_lower (or_empty q)) (REGION_KEYWORDS ! i)
        \<and> (\<forall>j<i. \<not> region_matches (str_lower (or_empty q)) (REGION_KEYWORDS ! j))))
   \<and> (detect_region q = None \<longleftrightarrow>
      (\<forall>i<length REGION_KEYWORDS.
          \<not> region_matches (str_lower (or_empty q)) (REGION_KEYWORDS ! i)))"
  unfolding detect_region_def detect_region_loop_Some detect_region_loop_None region_hit_iff
  by simp


theorem detect_region_first_match_witness:
  "detect_region (Some ''Flights to France and India'') = Some (snd (REGION_KEYWORDS ! 0))
   \<and> (\<exists>i<length REGION_KEYWORDS.
          snd (REGION_KEYWORDS ! 0) = snd (REGION_KEYWORDS ! i)
        \<and> region_matches ''flights to france and india'' (REGION_KEYWORDS ! i)
        \<and> (\<forall>j<i. \<not> region_matches ''flights to france and india'' (REGION_KEYWORDS ! j)))
   \<and> detect_region (Some ''Quiet terminals'') = None
   \<and> \<not> region_matches ''quiet terminals'' (REGION_KEYWORDS ! 0)
   \<and> \<not> region_matches ''quiet terminals'' (REGION_KEYWORDS ! 4)"
proof -
  have e: "detect_region (Some ''Flights to France and India'') = Some (snd (REGION_KEYWORDS ! 0))"
    by code_simp
  have l: "str_lower (or_empty (Some ''Flights to France and India''))
             = ''flights to france and india''"
    by code_simp
  have n: "detect_region (Some ''Quiet terminals'') = None"
    by code_simp
  have m: "str_lower (or_empty (Some ''Quiet terminals'')) = ''quiet terminals''"
    by code_simp
  from detect_region_first_match[of "Some ''Flights to France and India''"
         "snd (REGION_KEYWORDS ! 0)"] e
  have a: "\<exists>i<length REGION_KEYWORDS.
          snd (REGION_KEYWORDS ! 0) = snd (REGION_KEYWORDS ! i)
        \<and> region_matches ''flights to france and india'' (REGION_KEYWORDS ! i)
        \<and> (\<forall>j<i. \<not> region_matches ''flights to france and india'' (REGION_KEYWORDS ! j))"
    unfolding l by blast
  from detect_region_first_match[of "Some ''Quiet terminals''" "[]"] n
  have b: "\<forall>i<length REGION_KEYWORDS.
          \<not> region_matches ''quiet terminals'' (REGION_KEYWORDS ! i)"
    unfolding m by blast
  have "(0::nat) < length REGION_KEYWORDS" "(4::nat) < length REGION_KEYWORDS"
    by (simp_all add: REGION_KEYWORDS_def)
  with b have "\<not> region_matches ''quiet terminals'' (REGION_KEYWORDS ! 0)"
    "\<not> region_matches ''quiet terminals'' (REGION_KEYWORDS ! 4)"
    by blast+
  with e a n show ?thesis by blast
qed

subsection \<open>The keyword filter\<close>

text \<open>
  Claim C7. The conjuncts of the statement's \<^verbatim>\<open>WHERE\<close> clause are the filter clauses,
  then the keyword group when the keyword list is not empty, then the region group: the
  keyword group is one conjunct among the others. With its patterns bound, a row satisfies
  the keyword group if and only if at least one extracted keyword occurs as a substring
  of the lowercased style attribute or of the lowercased tags attribute of the row's
  metadata. Every row that the search returns comes from a table row with that property:
  the others are excluded. With an empty keyword list there is no keyword conjunct and no
  pattern is bound.
\<close>

theorem keyword_filter_strict:
  "(where_free st \<longrightarrow>
      statement_conds (fst (airports_statement st fstr vec k fl q))
        = Some (filter_conds fl @ keyword_conds (analysed_keywords q)
                  @ region_conds (analysed_region q)))
   \<and> bind_conds (filter_conds fl @ keyword_conds (analysed_keywords q)
                   @ region_conds (analysed_region q))
        (filter_values fl @ keyword_params (analysed_keywords q)
           @ region_values (analysed_region q))
        = Some (bound_filters fl @ bound_keywords (analysed_keywords q)
                  @ bound_region (analysed_region q), [])
   \<and> (analysed_keywords q \<noteq> [] \<longrightarrow>
        keyword_conds (analysed_keywords q) = [keyword_group (analysed_keywords q)]
        \<and> (\<forall>r::'m row. passes co (bound_keywords (analysed_keywords q)) r
                \<longleftrightarrow> (\<exists>kw\<in>set (analysed_keywords q). keyword_occurs kw r)))
   \<and> (analysed_keywords q = [] \<longrightarrow>
        keyword_conds (analysed_keywords q) = [] \<and> keyword_params (analysed_keywords q) = []
        \<and> bound_keywords (analysed_keywords q) = [])
   \<and> (where_free st
        \<and> fst (search_airports_by_text st fstr (db::'m storage) vec k fl q) = Inr rows \<longrightarrow>
        (\<exists>distf.
            rows = expected_rows db
                     (bound_filters fl @ bound_keywords (analysed_keywords q)
                        @ bound_region (analysed_region q))
                     (if is_region_search q then ByName else ByDistance) distf
          \<and> (analysed_keywords q \<noteq> [] \<longrightarrow>
               (\<forall>row\<in>set rows. \<exists>r\<in>set (db_airports db).
                   row = project Airports distf r
                 \<and> (\<exists>kw\<in>set (analysed_keywords q). keyword_occurs kw r)))))"
proof (intro conjI impI)
  assume wf: "where_free st"
  let ?sql = "fst (airports_statement st fstr vec k fl q)"
  have s: "?sql = Select Airports (if is_region_search q then DistZero else distance_expr st) # tl ?sql"
    using airports_statement_head[of st fstr vec k fl q] by (cases ?sql) auto
  show "statement_conds ?sql
        = Some (filter_conds fl @ keyword_conds (analysed_keywords q)
                  @ region_conds (analysed_region q))"
    by (subst s) (simp add: statement_conds_def airports_statement_parse[OF wf])
next
  have "analysed_region q \<noteq> Some []" using detect_region_nonempty by blast
  then show "bind_conds (filter_conds fl @ keyword_conds (analysed_keywords q)
                   @ region_conds (analysed_region q))
        (filter_values fl @ keyword_params (analysed_keywords q)
           @ region_values (analysed_region q))
        = Some (bound_filters fl @ bound_keywords (analysed_keywords q)
                  @ bound_region (analysed_region q), [])"
    by (rule bind_statement)
next
  assume ne: "analysed_keywords q \<noteq> []"
  then show "keyword_conds (analysed_keywords q) = [keyword_group (analysed_keywords q)]"
    by (simp add: keyword_conds_def)
  show "\<forall>r::'m row. passes co (bound_keywords (analysed_keywords q)) r
                \<longleftrightarrow> (\<exists>kw\<in>set (analysed_keywords q). keyword_occurs kw r)"
    using passes_bound_keywords[OF extract_keywords_whitelist ne] by blast
next
  assume e: "analysed_keywords q = []"
  then show "keyword_conds (analysed_keywords q) = []" "keyword_params (analysed_keywords q) = []"
    "bound_keywords (analysed_keywords q) = []"
    by (simp_all add: keyword_conds_def keyword_params_def bound_keywords_def)
next
  assume a: "where_free st
        \<and> fst (search_airports_by_text st fstr db vec k fl q) = Inr rows"
  then obtain distf where
    r: "rows = expected_rows db
                     (bound_filters fl @ bound_keywords (analysed_keywords q)
                        @ bound_region (analysed_region q))
                     (if is_region_search q then ByName else ByDistance) distf"
    using search_rows_expected[of st fstr db vec k fl q rows] by blast
  have "\<forall>row\<in>set rows. \<exists>r\<in>set (db_airports db).
                   row = project Airports distf r
                 \<and> (\<exists>kw\<in>set (analysed_keywords q). keyword_occurs kw r)"
    if ne: "analysed_keywords q \<noteq> []"
  proof
    fix row assume "row \<in> set rows"
    with r obtain x where x: "x \<in> set (db_airports db)" "row = project Airports distf x"
      "passes (db_coerce db) (bound_filters fl @ bound_keywords (analysed_keywords q)
                        @ bound_region (analysed_region q)) x"
      using expected_rows_mem by blast
    then have "passes (db_coerce db) (bound_keywords (analysed_keywords q)) x"
      by (simp add: passes_append)
    then have "\<exists>kw\<in>set (analysed_keywords q). keyword_occurs kw x"
      using passes_bound_keywords[OF extract_keywords_whitelist ne] by blast
    with x show "\<exists>r\<in>set (db_airports db).
                   row = project Airports distf r
                 \<and> (\<exists>kw\<in>set (analysed_keywords q). keyword_occurs kw r)"
      by blast
  qed
  with r show "\<exists>distf.
            rows = expected_rows db
                     (bound_filters fl @ bound_keywords (analysed_keywords q)
                        @ bound_region (analysed_region q))
                     (if is_region_search q then ByName else ByDistance) distf
          \<and> (analysed_keywords q \<noteq> [] \<longrightarrow>
               (\<forall>row\<in>set rows. \<exists>r\<in>set (db_airports db).
                   row = project Airports distf r
                 \<and> (\<exists>kw\<in>set (analysed_keywords q). keyword_occurs kw r)))"
    by blast
qed

theorem keyword_filter_strict_witness:
  "\<exists>rows. fst (search_airports_by_text small_settings (float_str demo_services) demo_storage
                 [Fin 1, Fin 2] 5 None (Some ''modern glass halls'')) = Inr rows
     \<and> (\<forall>row\<in>set rows. \<exists>r\<in>set (db_airports demo_storage).
           r0 row = row_id r \<and> (\<exists>kw\<in>set [''glass'', ''modern'']. keyword_occurs kw r))"
proof -
  from execute_airports_statement[OF where_free_small demo_reachable
         bind_dist_vector[OF not_region_modern_glass distance_expr_small demo_distance_fn],
         of "float_str demo_services" "[Fin 1, Fin 2]" 5 None]
  obtain rows where x: "fst (search_airports_by_text small_settings (float_str demo_services)
        demo_storage [Fin 1, Fin 2] 5 None (Some ''modern glass halls'')) = Inr rows"
    by (simp add: search_airports_fst)
  from keyword_filter_strict[where st = small_settings and fstr = "float_str demo_services"
        and db = demo_storage and vec = "[Fin 1, Fin 2]" and k = 5 and fl = None
        and q = "Some ''modern glass halls''" and rows = rows] where_free_small x
  obtain distf where
    "analysed_keywords (Some ''modern glass halls'') \<noteq> [] \<longrightarrow>
       (\<forall>row\<in>set rows. \<exists>r\<in>set (db_airports demo_storage).
           row = project Airports distf r
         \<and> (\<exists>kw\<in>set (analysed_keywords (Some ''modern glass halls'')). keyword_occurs kw r))"
    by blast
  then have f: "\<forall>row\<in>set rows. \<exists>r\<in>set (db_airports demo_storage).
           row = project Airports distf r
         \<and> (\<exists>kw\<in>set [''glass'', ''modern'']. keyword_occurs kw r)"
    unfolding keywords_modern_glass by simp
  have "\<forall>row\<in>set rows. \<exists>r\<in>set (db_airports demo_storage).
           r0 row = row_id r \<and> (\<exists>kw\<in>set [''glass'', ''modern'']. keyword_occurs kw r)"
  proof (rule ballI)
    fix row assume "row \<in> set rows"
    with f obtain r where r: "r \<in> set (db_airports demo_storage)" "row = project Airports distf r"
      "\<exists>kw\<in>set [''glass'', ''modern'']. keyword_occurs kw r"
      by blast
    from r(2) have "r0 row = row_id r" by (simp add: project_def)
    with r show "\<exists>r\<in>set (db_airports demo_storage).
           r0 row = row_id r \<and> (\<exists>kw\<in>set [''glass'', ''modern'']. keyword_occurs kw r)"
      by blast
  qed
  with x show ?thesis by blast
qed


subsection \<open>Validation of embedding dimensions\<close>

text \<open>
  Claim C8. After flattening, an embedding passes \<open>validate_dim\<close> exactly when its length
  is \<^verbatim>\<open>EMBEDDING_DIM\<close>. A text or image embedding of any other length makes each
  endpoint answer with status 400 and no statement handed to storage; so does a hybrid
  request whose image vector differs in shape from the text vector (one of the two then
  fails the dimension check, which comes first). An error answer with status 400 never
  follows a storage call, and an error answer after a storage call has status 500.
\<close>

theorem dimension_mismatch_rejected:
  "(validate_dim st (ravel raw) w = Inr () \<longleftrightarrow> int (length (nd_data raw)) = EMBEDDING_DIM st)
   \<and> (int (length (nd_data raw)) \<noteq> EMBEDDING_DIM st \<longrightarrow>
        (\<exists>d. validate_dim st (ravel raw) w = Inl (HTTPException 400 d)))
   \<and> (embed_text sv (body_query body) = Some raw
        \<and> int (length (nd_data raw)) \<noteq> EMBEDDING_DIM st \<longrightarrow>
        (\<exists>d. search_text st sv db body = (Inl (HTTPException 400 d), [])))
   \<and> (ct \<noteq> [] \<and> startswith ct ''image/'' \<and> embed_image_bytes sv data = Some raw
        \<and> int (length (nd_data raw)) \<noteq> EMBEDDING_DIM st \<longrightarrow>
        (\<exists>d. search_image st sv db (Some ct) data k has_logo = (Inl (HTTPException 400 d), [])))
   \<and> (embed_text sv (body_query hb) = Some raw
        \<and> int (length (nd_data raw)) \<noteq> EMBEDDING_DIM st \<longrightarrow>
        (\<exists>d. search_hybrid st sv db hb = (Inl (HTTPException 400 d), [])))
   \<and> (embed_text sv (body_query hb) = Some t_raw
        \<and> body_image_base64 hb = Some b64 \<and> b64 \<noteq> [] \<and> b64decode sv b64 = Some img
        \<and> embed_image_bytes sv img = Some raw
        \<and> (int (length (nd_data raw)) \<noteq> EMBEDDING_DIM st
             \<or> nd_shape (ravel raw) \<noteq> nd_shape (ravel t_raw)) \<longrightarrow>
        (\<exists>d. search_hybrid st sv db hb = (Inl (HTTPException 400 d), [])))
   \<and> (search_text st sv db body = (Inl (HTTPException c e), calls) \<longrightarrow>
        (c = 400 \<longrightarrow> calls = []) \<and> (calls \<noteq> [] \<longrightarrow> c = 500))
   \<and> (search_hybrid st sv db hb = (Inl (HTTPException c e), calls) \<longrightarrow>
        (c = 400 \<longrightarrow> calls = []) \<and> (calls \<noteq> [] \<longrightarrow> c = 500))"
proof (intro conjI impI)
  show "validate_dim st (ravel raw) w = Inr () \<longleftrightarrow> int (length (nd_data raw)) = EMBEDDING_DIM st"
    by (simp add: validate_dim_ravel)
next
  assume "int (length (nd_data raw)) \<noteq> EMBEDDING_DIM st"
  then show "\<exists>d. validate_dim st (ravel raw) w = Inl (HTTPException 400 d)"
    by (simp add: validate_dim_ravel)
next
  assume "embed_text sv (body_query body) = Some raw
        \<and> int (length (nd_data raw)) \<noteq> EMBEDDING_DIM st"
  then show "\<exists>d. search_text st sv db body = (Inl (HTTPException 400 d), [])"
    by (simp add: search_text_def Let_def validate_dim_ravel)
next
  assume "ct \<noteq> [] \<and> startswith ct ''image/'' \<and> embed_image_bytes sv data = Some raw
        \<and> int (length (nd_data raw)) \<noteq> EMBEDDING_DIM st"
  then show "\<exists>d. search_image st sv db (Some ct) data k has_logo = (Inl (HTTPException 400 d), [])"
    by (simp add: search_image_def Let_def validate_dim_ravel)
next
  assume "embed_text sv (body_query hb) = Some raw
        \<and> int (length (nd_data raw)) \<noteq> EMBEDDING_DIM st"
  then show "\<exists>d. search_hybrid st sv db hb = (Inl (HTTPException 400 d), [])"
    by (simp add: search_hybrid_def Let_def validate_dim_ravel)
next
  assume a: "embed_text sv (body_query hb) = Some t_raw
        \<and> body_image_base64 hb = Some b64 \<and> b64 \<noteq> [] \<and> b64decode sv b64 = Some img
        \<and> embed_image_bytes sv img = Some raw
        \<and> (int (length (nd_data raw)) \<noteq> EMBEDDING_DIM st
             \<or> nd_shape (ravel raw) \<noteq> nd_shape (ravel t_raw))"
  show "\<exists>d. search_hybrid st sv db hb = (Inl (HTTPException 400 d), [])"
  proof (cases "int (length (nd_data t_raw)) = EMBEDDING_DIM st")
    case False
    with a show ?thesis by (simp add: search_hybrid_def Let_def validate_dim_ravel)
  next
    case True
    with a have "int (length (nd_data raw)) \<noteq> EMBEDDING_DIM st"
      by (auto simp: ravel_def)
    with a True show ?thesis
      by (simp add: search_hybrid_def hybrid_image_vec_def Let_def validate_dim_ravel)
  qed
next
  assume a: "search_text st sv db body = (Inl (HTTPException c e), calls)"
  then show "calls = []" if "c = 400"
    using that
    by (auto simp: search_text_def Let_def search_airports_by_text_def
          split: option.splits sum.splits db_error.splits prod.splits)
  from a show "c = 500" if "calls \<noteq> []"
    using that
    by (auto simp: search_text_def Let_def search_airports_by_text_def
          split: option.splits sum.splits db_error.splits prod.splits)
next
  assume a: "search_hybrid st sv db hb = (Inl (HTTPException c e), calls)"
  then show "calls = []" if "c = 400"
    using that
    by (auto simp: search_hybrid_def Let_def search_airports_by_text_def
          split: option.splits sum.splits db_error.splits prod.splits if_splits)
  from a show "c = 500" if "calls \<noteq> []"
    using that
    by (auto simp: search_hybrid_def Let_def search_airports_by_text_def
          split: option.splits sum.splits db_error.splits prod.splits if_splits)
qed

theorem dimension_mismatch_rejected_witness:
  "(\<exists>d. search_text demo_settings demo_services empty_storage
           \<lparr> body_query = ''glass halls'', body_k = 5, body_filters = None \<rparr>
         = (Inl (HTTPException 400 d), []))
   \<and> validate_dim demo_settings
        (ravel \<lparr> nd_shape = [3], nd_data = [Fin 1, Fin 2, Fin 3] \<rparr>) ''image'' = Inr ()"
proof -
  let ?raw = "\<lparr> nd_shape = [1, 2], nd_data = [Fin 1, Fin 2] \<rparr>"
  let ?body = "\<lparr> body_query = ''glass halls'', body_k = 5, body_filters = None \<rparr>"
  have h: "embed_text demo_services (body_query ?body) = Some ?raw
        \<and> int (length (nd_data ?raw)) \<noteq> EMBEDDING_DIM demo_settings"
    by (simp add: demo_services_def demo_settings_def)
  from dimension_mismatch_rejected[where st = demo_settings and sv = demo_services
      and body = ?body and raw = ?raw and db = empty_storage] h
  have a: "\<exists>d. search_text demo_settings demo_services empty_storage ?body
             = (Inl (HTTPException 400 d), [])"
    by blast
  let ?good = "\<lparr> nd_shape = [3], nd_data = [Fin 1, Fin 2, Fin 3] \<rparr>"
  have g: "int (length (nd_data ?good)) = EMBEDDING_DIM demo_settings"
    by (simp add: demo_settings_def)
  from dimension_mismatch_rejected[where st = demo_settings and raw = ?good and w = "''image''"] g
  have b: "validate_dim demo_settings (ravel ?good) ''image'' = Inr ()"
    by blast
  from a b show ?thesis by blast
qed


subsection \<open>Filters\<close>

text \<open>
  Claim C9. \<open>apply_filters\<close> emits one clause for each of the keys \<^verbatim>\<open>country\<close>,
  \<^verbatim>\<open>city\<close>, \<^verbatim>\<open>style\<close>, \<^verbatim>\<open>has_image\<close>, \<^verbatim>\<open>has_logo\<close> whose value is truthy, and
  nothing else. A filter map in which no recognized key has a truthy value (the key is
  missing, or its value is \<^verbatim>\<open>None\<close>, \<^verbatim>\<open>False\<close>, the empty string or 0) gives exactly
  the result of the empty filter map and of no filter map. Two filter maps that agree on
  which recognized keys are truthy, and on the values of the truthy \<^verbatim>\<open>country\<close>,
  \<^verbatim>\<open>city\<close> and \<^verbatim>\<open>style\<close>, give the same result: every other key is ignored.
\<close>

theorem apply_filters_truthy_only:
  "apply_filters sql (Some f) ps =
      ((if filter_clauses f = [] then sql else sql @ [WhereAll (filter_clauses f)]),
       ps @ filter_params f)
   \<and> ((\<forall>key\<in>set recognized_keys. \<not> get_truthy f key) \<longrightarrow>
         apply_filters sql (Some f) ps = (sql, ps)
       \<and> apply_filters sql (Some f) ps = apply_filters sql (Some []) ps
       \<and> apply_filters sql (Some f) ps = apply_filters sql None ps)
   \<and> ((\<forall>key\<in>set recognized_keys. get_truthy f key = get_truthy g key)
        \<and> (\<forall>key\<in>set [''country'', ''city'', ''style''].
              get_truthy f key \<longrightarrow> map_of f key = map_of g key) \<longrightarrow>
         apply_filters sql (Some f) ps = apply_filters sql (Some g) ps)"
proof (intro conjI impI)
  show "apply_filters sql (Some f) ps =
      ((if filter_clauses f = [] then sql else sql @ [WhereAll (filter_clauses f)]),
       ps @ filter_params f)"
    by (simp add: apply_filters_eq filter_fragment_def filter_values_def)
next
  assume a: "\<forall>key\<in>set recognized_keys. \<not> get_truthy f key"
  show "apply_filters sql (Some f) ps = (sql, ps)"
    using filter_all_falsy[OF a]
    by (simp add: apply_filters_eq filter_fragment_def filter_values_def)
  then show "apply_filters sql (Some f) ps = apply_filters sql (Some []) ps"
    "apply_filters sql (Some f) ps = apply_filters sql None ps"
    by (simp_all add: apply_filters_def)
next
  assume a: "(\<forall>key\<in>set recognized_keys. get_truthy f key = get_truthy g key)
        \<and> (\<forall>key\<in>set [''country'', ''city'', ''style''].
              get_truthy f key \<longrightarrow> map_of f key = map_of g key)"
  show "apply_filters sql (Some f) ps = apply_filters sql (Some g) ps"
    using filter_agree[of f g] a
    by (simp add: apply_filters_eq filter_fragment_def filter_values_def)
qed

theorem apply_filters_truthy_only_witness:
  "apply_filters [Select Airports DistZero] (Some [(''has_image'', JBool False)]) []
     = apply_filters [Select Airports DistZero] (Some []) []
   \<and> apply_filters [Select Airports DistZero] (Some [(''country'', JStr [])]) []
     = apply_filters [Select Airports DistZero] (Some []) []
   \<and> apply_filters [Select Airports DistZero]
        (Some [(''country'', JStr ''India''), (''has_image'', JBool True),
               (''colour'', JStr ''red''), (''city'', JInt 0)]) []
     = ([Select Airports DistZero, WhereAll [LowerEq Country, NotBlank ImageUrl]],
        [JStr ''India''])
   \<and> apply_filters [Select Airports DistZero]
        (Some [(''country'', JStr ''India''), (''has_image'', JBool True),
               (''colour'', JStr ''red''), (''city'', JInt 0)]) []
     = apply_filters [Select Airports DistZero]
        (Some [(''has_image'', JInt 1), (''country'', JStr ''India'')]) []"
proof -
  have 1: "\<forall>key\<in>set recognized_keys. \<not> get_truthy [(''has_image'', JBool False)] key"
    by (simp add: recognized_keys_def get_truthy_def)
  have 2: "\<forall>key\<in>set recognized_keys. \<not> get_truthy [(''country'', JStr [])] key"
    by (simp add: recognized_keys_def get_truthy_def)
  have 3: "(\<forall>key\<in>set recognized_keys.
             get_truthy [(''country'', JStr ''India''), (''has_image'', JBool True),
               (''colour'', JStr ''red''), (''city'', JInt 0)] key
               = get_truthy [(''has_image'', JInt 1), (''country'', JStr ''India'')] key)
           \<and> (\<forall>key\<in>set [''country'', ''city'', ''style'']. get_truthy [(''country'', JStr ''India''), (''has_image'', JBool True),
               (''colour'', JStr ''red''), (''city'', JInt 0)] key \<longrightarrow>
               map_of [(''country'', JStr ''India''), (''has_image'', JBool True),
               (''colour'', JStr ''red''), (''city'', JInt 0)] key
               = map_of [(''has_image'', JInt 1), (''country'', JStr ''India'')] key)"
    by (simp add: recognized_keys_def get_truthy_def)
  have 4: "filter_clauses [(''country'', JStr ''India''), (''has_image'', JBool True),
               (''colour'', JStr ''red''), (''city'', JInt 0)] = [LowerEq Country, NotBlank ImageUrl]"
    "filter_params [(''country'', JStr ''India''), (''has_image'', JBool True),
               (''colour'', JStr ''red''), (''city'', JInt 0)] = [JStr ''India'']"
    by (simp_all add: filter_clauses_def filter_params_def get_truthy_def)
  let ?sql = "[Select Airports DistZero]"
  let ?f = "[(''country'', JStr ''India''), (''has_image'', JBool True),
               (''colour'', JStr ''red''), (''city'', JInt 0)]"
  let ?g = "[(''has_image'', JInt 1), (''country'', JStr ''India'')]"
  from apply_filters_truthy_only[of ?sql "[(''has_image'', JBool False)]" "[]" "[]"] 1
  have a: "apply_filters ?sql (Some [(''has_image'', JBool False)]) []
             = apply_filters ?sql (Some []) []"
    by blast
  from apply_filters_truthy_only[of ?sql "[(''country'', JStr [])]" "[]" "[]"] 2
  have b: "apply_filters ?sql (Some [(''country'', JStr [])]) []
             = apply_filters ?sql (Some []) []"
    by blast
  from apply_filters_truthy_only[of ?sql ?f "[]" ?g] 3
  have c: "apply_filters ?sql (Some ?f) [] = apply_filters ?sql (Some ?g) []"
    by blast
  from apply_filters_truthy_only[of ?sql ?f "[]" ?g]
  have "apply_filters ?sql (Some ?f) [] =
      ((if filter_clauses ?f = [] then ?sql else ?sql @ [WhereAll (filter_clauses ?f)]),
       [] @ filter_params ?f)"
    by blast
  then have d: "apply_filters ?sql (Some ?f) []
      = ([Select Airports DistZero, WhereAll [LowerEq Country, NotBlank ImageUrl]],
         [JStr ''India''])"
    unfolding 4 by simp
  from a b c d show ?thesis by blast
qed


subsection \<open>Serializing the query vector\<close>

text \<open>
  Claim C10. \<open>vec_text\<close> replaces every component that is not finite (NaN, either
  infinity) by \<open>0.0\<close>, keeps every finite component, and returns the cleaned components
  rendered by \<^verbatim>\<open>str\<close>, joined by commas, in brackets. The cleaned vector has the length
  of the input and only finite components; and as long as \<^verbatim>\<open>str\<close> never yields a comma,
  splitting the text between the brackets at the commas gives back one rendering per
  component.
\<close>

theorem vec_text_finite:
  "vec_text fstr v = ''['' @ str_join '','' (map fstr (cleaned v)) @ '']''
   \<and> length (cleaned v) = length v
   \<and> (\<forall>x\<in>set (cleaned v). isfinite x)
   \<and> (\<forall>i<length v. cleaned v ! i = (if isfinite (v ! i) then v ! i else Fin 0))
   \<and> (v \<noteq> [] \<and> (\<forall>x. CHR '','' \<notin> set (fstr x)) \<longrightarrow>
        split_on (CHR '','') (str_join '','' (map fstr (cleaned v))) = map fstr (cleaned v))"
proof -
  have "split_on (CHR '','') (str_join '','' (map fstr (cleaned v))) = map fstr (cleaned v)"
    if "v \<noteq> [] \<and> (\<forall>x. CHR '','' \<notin> set (fstr x))"
    using that split_on_join[of "map fstr (cleaned v)" "CHR '',''"]
    by (simp add: cleaned_def)
  then show ?thesis
    by (auto simp: vec_text_def cleaned_def isfinite_def)
qed


theorem vec_text_finite_witness:
  "vec_text (\<lambda>x. if x = Fin 0 then ''0.0'' else ''1.5'') [Fin (3/2), NaN, PosInf] = ''[1.5,0.0,0.0]''
   \<and> cleaned [Fin (3/2), NaN, PosInf] = [Fin (3/2), Fin 0, Fin 0]
   \<and> split_on (CHR '','')
         (str_join '','' (map (\<lambda>x. if x = Fin 0 then ''0.0'' else ''1.5'')
            (cleaned [Fin (3/2), NaN, PosInf]))) = [''1.5'', ''0.0'', ''0.0'']"
proof -
  let ?fstr = "\<lambda>x. if x = Fin 0 then ''0.0'' else ''1.5''"
  let ?v = "[Fin (3/2), NaN, PosInf]"
  have c: "cleaned ?v = [Fin (3/2), Fin 0, Fin 0]"
    by (simp add: cleaned_def isfinite_def)
  have h: "?v \<noteq> [] \<and> (\<forall>x. CHR '','' \<notin> set (?fstr x))" by simp
  from vec_text_finite[of ?fstr ?v] h
  have "vec_text ?fstr ?v = ''['' @ str_join '','' (map ?fstr (cleaned ?v)) @ '']''"
    and "split_on (CHR '','') (str_join '','' (map ?fstr (cleaned ?v))) = map ?fstr (cleaned ?v)"
    by blast+
  then show ?thesis unfolding c by simp
qed

end
